theory Spec2Isabelle
  imports Main "HOL-Library.AList"
begin

section \<open>Python values used by the keyword generator\<close>

text \<open>
  A Python \<open>str\<close> is a sequence of Unicode code points; slicing, \<open>strip\<close> and
  \<open>startswith\<close> count code points, so a string is modelled as a list of code points
  (natural numbers).  ASCII literals of the source are written with \<open>ascii\<close>; the Korean
  literals are given by their code points.
\<close>

type_synonym pystr = "nat list"

definition ascii :: "string \<Rightarrow> pystr" where
  "ascii s = map of_char s"

text \<open>\<open>str(n)\<close> for a non-negative and for an arbitrary integer.\<close>

fun str_nat :: "nat \<Rightarrow> pystr" where
  "str_nat n = (if n < 10 then [48 + n] else str_nat (n div 10) @ [48 + n mod 10])"

declare str_nat.simps [simp del]

definition str_int :: "int \<Rightarrow> pystr" where
  "str_int i = (if i < 0 then 45 # str_nat (nat (- i)) else str_nat (nat i))"

text \<open>
  The values the script handles are the values \<open>json.loads\<close> produces: \<open>None\<close>,
  \<open>bool\<close>, \<open>int\<close>, \<open>float\<close>, \<open>str\<close>, \<open>list\<close> and \<open>dict\<close> with string keys (insertion
  ordered).  Floating-point numbers are not interpreted: the type \<open>'f\<close> of floats and the
  operations the script needs on them are parameters (record \<open>float_ops\<close>).
\<close>

datatype 'f pyval =
    PyNone
  | PyBool bool
  | PyInt int
  | PyFloat 'f
  | PyStr pystr
  | PyList "'f pyval list"
  | PyDict "(pystr \<times> 'f pyval) list"

record 'f float_ops =
  float_of_literal :: "pystr \<Rightarrow> 'f"   \<comment> \<open>\<open>float(text)\<close> on a JSON number literal\<close>
  float_nan :: 'f
  float_inf :: 'f
  float_neg_inf :: 'f
  float_bool :: "'f \<Rightarrow> bool"          \<comment> \<open>\<open>bool(x)\<close>, that is \<open>x != 0.0\<close>\<close>
  float_str :: "'f \<Rightarrow> string"         \<comment> \<open>the encoder's \<open>floatstr\<close>: \<open>repr\<close>, \<open>NaN\<close>, \<open>Infinity\<close>, \<open>-Infinity\<close>\<close>

text \<open>The exceptions that can reach the handler of \<open>main\<close>, each with what \<open>str(e)\<close> needs.\<close>

datatype exn =
    ValueError pystr
  | JSONDecodeError pystr pystr nat      \<comment> \<open>msg, doc, pos\<close>
  | HTTPError pystr
  | RequestException pystr               \<comment> \<open>a transport failure of \<open>requests.post\<close>\<close>
  | KeyError pystr                       \<comment> \<open>\<open>repr\<close> of the missing key\<close>
  | IndexError pystr
  | TypeError pystr
  | AttributeError pystr
  | UnicodeEncodeError pystr nat nat     \<comment> \<open>object, start, end\<close>

text \<open>Python truthiness (\<open>if x:\<close>, \<open>not x\<close>) and \<open>len\<close>.\<close>

fun truthy :: "'f float_ops \<Rightarrow> 'f pyval \<Rightarrow> bool" where
  "truthy F PyNone = False"
| "truthy F (PyBool b) = b"
| "truthy F (PyInt i) = (i \<noteq> 0)"
| "truthy F (PyFloat x) = float_bool F x"
| "truthy F (PyStr s) = (s \<noteq> [])"
| "truthy F (PyList xs) = (xs \<noteq> [])"
| "truthy F (PyDict d) = (d \<noteq> [])"

definition no_len :: "string \<Rightarrow> exn" where
  "no_len tyname = TypeError (ascii ''object of type '' @ [39] @ ascii tyname @ [39] @ ascii '' has no len()'')"

fun py_len :: "'f pyval \<Rightarrow> exn + nat" where
  "py_len PyNone = Inl (no_len ''NoneType'')"
| "py_len (PyBool b) = Inl (no_len ''bool'')"
| "py_len (PyInt i) = Inl (no_len ''int'')"
| "py_len (PyFloat x) = Inl (no_len ''float'')"
| "py_len (PyStr s) = Inr (length s)"
| "py_len (PyList xs) = Inr (length xs)"
| "py_len (PyDict d) = Inr (length d)"

section \<open>\<open>json.loads\<close>\<close>

text \<open>
  The decoder follows CPython's accelerated scanner (the default of \<open>json.loads\<close>):
  \<open>scanstring\<close>, \<open>scan_once\<close>, the object and the array loop, and the number matcher, with
  strict control-character checking.  The functions work on the rest of the document;
  an error carries its message and the number of characters that remain at the error
  position, from which \<open>json_loads\<close> computes \<open>pos\<close>.  The interpreter's resource limits
  (recursion depth, the digit limit of \<open>int\<close>) are not modelled.
\<close>

type_synonym jerr = "pystr \<times> nat"

definition is_ws :: "nat \<Rightarrow> bool" where
  "is_ws c = (c = 32 \<or> c = 9 \<or> c = 10 \<or> c = 13)"

definition skip_ws :: "pystr \<Rightarrow> pystr" where
  "skip_ws cs = dropWhile is_ws cs"

definition is_digit :: "nat \<Rightarrow> bool" where
  "is_digit c = (48 \<le> c \<and> c \<le> 57)"

definition hexval :: "nat \<Rightarrow> nat option" where
  "hexval c =
     (if 48 \<le> c \<and> c \<le> 57 then Some (c - 48)
      else if 97 \<le> c \<and> c \<le> 102 then Some (c - 87)
      else if 65 \<le> c \<and> c \<le> 70 then Some (c - 55)
      else None)"

fun hex4 :: "pystr \<Rightarrow> nat option" where
  "hex4 [a, b, c, d] =
     (case (hexval a, hexval b, hexval c, hexval d) of
        (Some x, Some y, Some z, Some w) \<Rightarrow> Some (((x * 16 + y) * 16 + z) * 16 + w)
      | _ \<Rightarrow> None)"
| "hex4 _ = None"

definition backslash :: "nat \<Rightarrow> nat option" where
  "backslash e =
     (if e = 34 then Some 34 else if e = 92 then Some 92 else if e = 47 then Some 47
      else if e = 98 then Some 8 else if e = 102 then Some 12 else if e = 110 then Some 10
      else if e = 114 then Some 13 else if e = 116 then Some 9 else None)"

definition high_surrogate :: "nat \<Rightarrow> bool" where
  "high_surrogate c = (0xD800 \<le> c \<and> c \<le> 0xDBFF)"

definition low_surrogate :: "nat \<Rightarrow> bool" where
  "low_surrogate c = (0xDC00 \<le> c \<and> c \<le> 0xDFFF)"

definition join_surrogates :: "nat \<Rightarrow> nat \<Rightarrow> nat" where
  "join_surrogates hi lo = 0x10000 + (hi - 0xD800) * 0x400 + (lo - 0xDC00)"

definition invalid_uXXXX :: pystr where
  "invalid_uXXXX = ascii ''Invalid '' @ [92] @ ascii ''uXXXX escape''"

definition invalid_escape :: pystr where
  "invalid_escape = ascii ''Invalid '' @ [92] @ ascii ''escape''"

text \<open>
  \<open>unicode_escape r\<close> reads what follows the escape introducer \<open>u\<close>: four hexadecimal
  digits, which must be followed by at least one more character, and a second escape
  when the first is a high surrogate and the second a low one.  It returns the character
  and the number of characters of \<open>r\<close> it used (4 or 10).
\<close>

definition unicode_escape :: "pystr \<Rightarrow> jerr + (nat \<times> nat)" where
  "unicode_escape r =
     (if length r \<le> 4 then Inl (invalid_uXXXX, Suc (length r))
      else case hex4 (take 4 r) of
        None \<Rightarrow> Inl (invalid_uXXXX, Suc (length r))
      | Some c \<Rightarrow>
          let r2 = drop 4 r in
          if high_surrogate c \<and> 6 < length r2 \<and> take 2 r2 = [92, 117] then
            (case hex4 (take 4 (drop 2 r2)) of
               None \<Rightarrow> Inl (invalid_uXXXX, length r2 - 1)
             | Some c2 \<Rightarrow>
                 if low_surrogate c2 then Inr (join_surrogates c c2, 10)
                 else Inr (c, 4))
          else Inr (c, 4))"

text \<open>
  \<open>scanstring b acc k cs\<close>: \<open>cs\<close> is what remains of the string literal, \<open>acc\<close> the
  characters decoded so far, \<open>k\<close> the number of characters read since the opening quote,
  \<open>b\<close> the number of characters that remained at the opening quote.  The result is the
  decoded string and the number of characters read, closing quote included.
\<close>

function scanstring :: "nat \<Rightarrow> pystr \<Rightarrow> nat \<Rightarrow> pystr \<Rightarrow> jerr + (pystr \<times> nat)" where
  "scanstring b acc k [] = Inl (ascii ''Unterminated string starting at'', b)"
| "scanstring b acc k (c # r) =
     (if c = 34 then Inr (acc, Suc k)
      else if c = 92 then
        (case r of
           [] \<Rightarrow> Inl (ascii ''Unterminated string starting at'', b)
         | e # r' \<Rightarrow>
             if e \<noteq> 117 then
               (case backslash e of
                  None \<Rightarrow> Inl (invalid_escape, Suc (length r))
                | Some ch \<Rightarrow> scanstring b (acc @ [ch]) (k + 2) r')
             else
               (case unicode_escape r' of
                  Inl err \<Rightarrow> Inl err
                | Inr (ch, m) \<Rightarrow> scanstring b (acc @ [ch]) (k + 2 + m) (drop m r')))
      else if c \<le> 31 then Inl (ascii ''Invalid control character at'', Suc (length r))
      else scanstring b (acc @ [c]) (Suc k) r)"
  by pat_completeness auto
termination
  by (relation "measure (\<lambda>(b, acc, k, cs). length cs)") auto

text \<open>
  The number matcher: an optional minus sign, \<open>0\<close> or a digit sequence that does not start
  with \<open>0\<close>, an optional fraction (a dot followed by at least one digit) and an optional
  exponent (\<open>e\<close> or \<open>E\<close>, an optional sign, at least one digit).  It returns the literal and
  whether it is a float.
\<close>

definition match_int_part :: "pystr \<Rightarrow> pystr option" where
  "match_int_part cs =
     (case cs of
        [] \<Rightarrow> None
      | c # r \<Rightarrow>
          if c = 48 then Some [48]
          else if 49 \<le> c \<and> c \<le> 57 then Some (c # takeWhile is_digit r)
          else None)"

definition match_frac :: "pystr \<Rightarrow> pystr" where
  "match_frac cs =
     (case cs of
        c # d # r \<Rightarrow> if c = 46 \<and> is_digit d then c # d # takeWhile is_digit r else []
      | _ \<Rightarrow> [])"

definition match_exp :: "pystr \<Rightarrow> pystr" where
  "match_exp cs =
     (case cs of
        [] \<Rightarrow> []
      | e # r \<Rightarrow>
          if e = 101 \<or> e = 69 then
            (let sg = (case r of [] \<Rightarrow> [] | s # t \<Rightarrow> if s = 45 \<or> s = 43 then [s] else []);
                 ds = takeWhile is_digit (drop (length sg) r)
             in if ds = [] then [] else e # sg @ ds)
          else [])"

definition match_number :: "pystr \<Rightarrow> (pystr \<times> bool) option" where
  "match_number cs =
     (let sign = (case cs of [] \<Rightarrow> [] | c # r \<Rightarrow> if c = 45 then [c] else [])
      in case match_int_part (drop (length sign) cs) of
           None \<Rightarrow> None
         | Some ip \<Rightarrow>
             let integer = sign @ ip;
                 frac = match_frac (drop (length integer) cs);
                 ex = match_exp (drop (length integer + length frac) cs)
             in Some (integer @ frac @ ex, frac \<noteq> [] \<or> ex \<noteq> []))"

text \<open>\<open>int(text)\<close> on the literal of an integer: an optional minus sign and decimal digits.\<close>

definition digits_value :: "pystr \<Rightarrow> nat" where
  "digits_value ds = foldl (\<lambda>a d. 10 * a + (d - 48)) 0 ds"

definition int_of_literal :: "pystr \<Rightarrow> int" where
  "int_of_literal t =
     (case t of
        [] \<Rightarrow> 0
      | c # r \<Rightarrow> if c = 45 then - int (digits_value r) else int (digits_value t))"

definition is_prefix :: "pystr \<Rightarrow> pystr \<Rightarrow> bool" where
  "is_prefix p s = (take (length p) s = p)"

text \<open>
  \<open>scan_once\<close> with the object loop and the array loop.  Each returns the value and the
  number of characters it read; \<open>scan_object\<close> and \<open>scan_array\<close> start where a key
  respectively an element is expected.  A dict keeps the position of a key's first
  occurrence and the value of its last one (\<open>AList.update\<close>).
\<close>

definition starts :: "nat \<Rightarrow> pystr \<Rightarrow> bool" where
  "starts c cs = (case cs of [] \<Rightarrow> False | d # r \<Rightarrow> d = c)"

definition expecting_value :: pystr where
  "expecting_value = ascii ''Expecting value''"

function scan_once :: "'f float_ops \<Rightarrow> pystr \<Rightarrow> jerr + ('f pyval \<times> nat)"
  and scan_object :: "'f float_ops \<Rightarrow> (pystr \<times> 'f pyval) list \<Rightarrow> pystr \<Rightarrow> jerr + ('f pyval \<times> nat)"
  and scan_array :: "'f float_ops \<Rightarrow> 'f pyval list \<Rightarrow> pystr \<Rightarrow> jerr + ('f pyval \<times> nat)"
where
  "scan_once F cs =
     (case cs of
        [] \<Rightarrow> Inl (expecting_value, 0)
      | c # r \<Rightarrow>
          if c = 34 then
            (case scanstring (length cs) [] 0 r of
               Inl err \<Rightarrow> Inl err
             | Inr (s, n) \<Rightarrow> Inr (PyStr s, Suc n))
          else if c = 123 then
            (if starts 125 (skip_ws r) then Inr (PyDict [], Suc (length cs - length (skip_ws r)))
             else
               (case scan_object F [] (skip_ws r) of
                  Inl err \<Rightarrow> Inl err
                | Inr (v, n) \<Rightarrow> Inr (v, length cs - length (skip_ws r) + n)))
          else if c = 91 then
            (if starts 93 (skip_ws r) then Inr (PyList [], Suc (length cs - length (skip_ws r)))
             else
               (case scan_array F [] (skip_ws r) of
                  Inl err \<Rightarrow> Inl err
                | Inr (v, n) \<Rightarrow> Inr (v, length cs - length (skip_ws r) + n)))
          else if is_prefix (ascii ''null'') cs then Inr (PyNone, 4)
          else if is_prefix (ascii ''true'') cs then Inr (PyBool True, 4)
          else if is_prefix (ascii ''false'') cs then Inr (PyBool False, 5)
          else if is_prefix (ascii ''NaN'') cs then Inr (PyFloat (float_nan F), 3)
          else if is_prefix (ascii ''Infinity'') cs then Inr (PyFloat (float_inf F), 8)
          else if is_prefix (ascii ''-Infinity'') cs then Inr (PyFloat (float_neg_inf F), 9)
          else
            (case match_number cs of
               None \<Rightarrow> Inl (expecting_value, length cs)
             | Some (t, is_float) \<Rightarrow>
                 Inr (if is_float then PyFloat (float_of_literal F t) else PyInt (int_of_literal t),
                      length t)))"
| "scan_object F pairs cs =
     (case cs of
        [] \<Rightarrow> Inl (ascii ''Expecting property name enclosed in double quotes'', 0)
      | q # r \<Rightarrow>
          if q \<noteq> 34 then
            Inl (ascii ''Expecting property name enclosed in double quotes'', length cs)
          else
            (case scanstring (length cs) [] 0 r of
               Inl err \<Rightarrow> Inl err
             | Inr (key, n) \<Rightarrow>
                 (case skip_ws (drop n r) of
                    [] \<Rightarrow> Inl (ascii ''Expecting '' @ [39, 58, 39] @ ascii '' delimiter'', 0)
                  | colon # r1 \<Rightarrow>
                      if colon \<noteq> 58 then
                        Inl (ascii ''Expecting '' @ [39, 58, 39] @ ascii '' delimiter'', Suc (length r1))
                      else
                        (case scan_once F (skip_ws r1) of
                           Inl err \<Rightarrow> Inl err
                         | Inr (v, m) \<Rightarrow>
                             (case skip_ws (drop m (skip_ws r1)) of
                                [] \<Rightarrow> Inl (ascii ''Expecting '' @ [39, 44, 39] @ ascii '' delimiter'', 0)
                              | d # r2 \<Rightarrow>
                                  if d = 125 then
                                    Inr (PyDict (AList.update key v pairs), length cs - length r2)
                                  else if d \<noteq> 44 then
                                    Inl (ascii ''Expecting '' @ [39, 44, 39] @ ascii '' delimiter'',
                                         Suc (length r2))
                                  else
                                    (case scan_object F (AList.update key v pairs) (skip_ws r2) of
                                       Inl err \<Rightarrow> Inl err
                                     | Inr (obj, k) \<Rightarrow>
                                         Inr (obj, length cs - length (skip_ws r2) + k)))))))"
| "scan_array F vals cs =
     (case scan_once F cs of
        Inl err \<Rightarrow> Inl err
      | Inr (v, n) \<Rightarrow>
          (case skip_ws (drop n cs) of
             [] \<Rightarrow> Inl (ascii ''Expecting '' @ [39, 44, 39] @ ascii '' delimiter'', 0)
           | d # r \<Rightarrow>
               if d = 93 then Inr (PyList (vals @ [v]), length cs - length r)
               else if d \<noteq> 44 then
                 Inl (ascii ''Expecting '' @ [39, 44, 39] @ ascii '' delimiter'', Suc (length r))
               else
                 (case scan_array F (vals @ [v]) (skip_ws r) of
                    Inl err \<Rightarrow> Inl err
                  | Inr (lst, k) \<Rightarrow> Inr (lst, length cs - length (skip_ws r) + k))))"
  by pat_completeness auto
termination
proof (relation "measure (\<lambda>x. case x of
          Inl (F, cs) \<Rightarrow> 2 * length cs
        | Inr (Inl (F, pairs, cs)) \<Rightarrow> 2 * length cs + 1
        | Inr (Inr (F, vals, cs)) \<Rightarrow> 2 * length cs + 1)", goal_cases)
  case 1
  show ?case by simp
next
  case (2 F cs c r)
  have "length (skip_ws r) \<le> length r"
    by (simp add: skip_ws_def length_dropWhile_le)
  with 2 show ?case by simp
next
  case (3 F cs c r)
  have "length (skip_ws r) \<le> length r"
    by (simp add: skip_ws_def length_dropWhile_le)
  with 3 show ?case by simp
next
  case (4 F pairs cs q r x key n colon r1)
  have "length (skip_ws (drop n r)) \<le> length r"
    using length_dropWhile_le [of is_ws "drop n r"] by (simp add: skip_ws_def)
  moreover have "length (skip_ws r1) \<le> length r1"
    by (simp add: skip_ws_def length_dropWhile_le)
  ultimately show ?case using 4 by simp
next
  case (5 F pairs cs q r x key n colon r1 y v m d r2)
  have "length (skip_ws (drop n r)) \<le> length r"
    using length_dropWhile_le [of is_ws "drop n r"] by (simp add: skip_ws_def)
  moreover have "length (skip_ws r1) \<le> length r1"
    by (simp add: skip_ws_def length_dropWhile_le)
  moreover have "length (skip_ws (drop m (skip_ws r1))) \<le> length (skip_ws r1)"
    using length_dropWhile_le [of is_ws "drop m (skip_ws r1)"] by (simp add: skip_ws_def)
  moreover have "length (skip_ws r2) \<le> length r2"
    by (simp add: skip_ws_def length_dropWhile_le)
  ultimately show ?case using 5 by simp
next
  case (6 F vals cs)
  show ?case by simp
next
  case (7 F vals cs x v n d r)
  have "length (skip_ws (drop n cs)) \<le> length cs"
    using length_dropWhile_le [of is_ws "drop n cs"] by (simp add: skip_ws_def)
  moreover have "length (skip_ws r) \<le> length r"
    by (simp add: skip_ws_def length_dropWhile_le)
  ultimately show ?case using 7 by simp
qed

declare scan_once.simps [simp del] scan_object.simps [simp del] scan_array.simps [simp del]

text \<open>
  \<open>json.loads\<close> on a \<open>str\<close>: a leading byte-order mark is refused, white space around
  the value is skipped, and anything after it is \<open>Extra data\<close>.
\<close>

definition decode_error :: "pystr \<Rightarrow> jerr \<Rightarrow> exn" where
  "decode_error doc e = JSONDecodeError (fst e) doc (length doc - snd e)"

definition json_loads :: "'f float_ops \<Rightarrow> pystr \<Rightarrow> exn + 'f pyval" where
  "json_loads F s =
     (if is_prefix [0xFEFF] s then
        Inl (JSONDecodeError (ascii ''Unexpected UTF-8 BOM (decode using utf-8-sig)'') s 0)
      else
        (case scan_once F (skip_ws s) of
           Inl err \<Rightarrow> Inl (decode_error s err)
         | Inr (obj, n) \<Rightarrow>
             (let rest = skip_ws (drop n (skip_ws s)) in
              if rest \<noteq> [] then Inl (decode_error s (ascii ''Extra data'', length rest))
              else Inr obj)))"

section \<open>\<open>str(e)\<close>\<close>

definition lineno :: "pystr \<Rightarrow> nat \<Rightarrow> nat" where
  "lineno doc pos = length (filter (\<lambda>c. c = 10) (take pos doc)) + 1"

definition colno :: "pystr \<Rightarrow> nat \<Rightarrow> nat" where
  "colno doc pos = length (takeWhile (\<lambda>c. c \<noteq> 10) (rev (take pos doc))) + 1"

definition hexdigit :: "nat \<Rightarrow> nat" where
  "hexdigit d = (if d < 10 then 48 + d else 87 + d)"

definition hex_fixed :: "nat \<Rightarrow> nat \<Rightarrow> pystr" where
  "hex_fixed w n = map (\<lambda>i. hexdigit ((n div 16 ^ i) mod 16)) (rev [0..<w])"

definition bad_char_text :: "nat \<Rightarrow> pystr" where
  "bad_char_text c =
     (if c \<le> 0xFF then [92, 120] @ hex_fixed 2 c
      else if c \<le> 0xFFFF then [92, 117] @ hex_fixed 4 c
      else [92, 85] @ hex_fixed 8 c)"

fun exn_str :: "exn \<Rightarrow> pystr" where
  "exn_str (ValueError m) = m"
| "exn_str (JSONDecodeError msg doc pos) =
     msg @ ascii '': line '' @ str_nat (lineno doc pos) @ ascii '' column ''
       @ str_nat (colno doc pos) @ ascii '' (char '' @ str_nat pos @ ascii '')''"
| "exn_str (HTTPError m) = m"
| "exn_str (RequestException m) = m"
| "exn_str (KeyError r) = r"
| "exn_str (IndexError m) = m"
| "exn_str (TypeError m) = m"
| "exn_str (AttributeError m) = m"
| "exn_str (UnicodeEncodeError obj start end) =
     (if obj \<noteq> [] \<and> start < length obj \<and> end = start + 1 then
        [39] @ ascii ''utf-8'' @ [39] @ ascii '' codec can'' @ [39] @ ascii ''t encode character ''
          @ [39] @ bad_char_text (obj ! start) @ [39] @ ascii '' in position '' @ str_nat start
          @ ascii '': surrogates not allowed''
      else
        [39] @ ascii ''utf-8'' @ [39] @ ascii '' codec can'' @ [39] @ ascii ''t encode characters in position ''
          @ str_nat start @ ascii ''-'' @ str_nat (end - 1) @ ascii '': surrogates not allowed'')"

section \<open>\<open>json.dump\<close> with \<open>ensure_ascii=False, indent=2\<close>\<close>

text \<open>
  The encoder yields the document in chunks, which \<open>json.dump\<close> writes one by one; the
  chunks are those of the generator \<open>_make_iterencode\<close> for \<open>indent = 2\<close>, the item
  separator \<open>,\<close> and the key separator \<open>: \<close>.  Non-ASCII characters are copied, only the
  quote, the backslash and the control characters are escaped.
\<close>

definition escape_char :: "nat \<Rightarrow> pystr" where
  "escape_char c =
     (if c = 34 then [92, 34] else if c = 92 then [92, 92]
      else if c = 8 then [92, 98] else if c = 12 then [92, 102] else if c = 10 then [92, 110]
      else if c = 13 then [92, 114] else if c = 9 then [92, 116]
      else if c < 32 then [92, 117] @ hex_fixed 4 c
      else [c])"

definition encode_basestring :: "pystr \<Rightarrow> pystr" where
  "encode_basestring s = [34] @ concat (map escape_char s) @ [34]"

definition newline_indent :: "nat \<Rightarrow> pystr" where
  "newline_indent level = 10 # replicate (2 * level) 32"

fun scalar_text :: "'f float_ops \<Rightarrow> 'f pyval \<Rightarrow> pystr option" where
  "scalar_text F (PyStr s) = Some (encode_basestring s)"
| "scalar_text F PyNone = Some (ascii ''null'')"
| "scalar_text F (PyBool b) = Some (if b then ascii ''true'' else ascii ''false'')"
| "scalar_text F (PyInt i) = Some (str_int i)"
| "scalar_text F (PyFloat x) = Some (ascii (float_str F x))"
| "scalar_text F (PyList xs) = None"
| "scalar_text F (PyDict d) = None"

fun iterencode :: "'f float_ops \<Rightarrow> 'f pyval \<Rightarrow> nat \<Rightarrow> pystr list"
  and iterencode_list :: "'f float_ops \<Rightarrow> pystr \<Rightarrow> 'f pyval list \<Rightarrow> nat \<Rightarrow> pystr list"
  and iterencode_dict :: "'f float_ops \<Rightarrow> bool \<Rightarrow> (pystr \<times> 'f pyval) list \<Rightarrow> nat \<Rightarrow> pystr list"
where
  "iterencode F (PyList xs) level =
     (if xs = [] then [ascii ''[]'']
      else iterencode_list F (91 # newline_indent (Suc level)) xs (Suc level)
             @ [newline_indent level, [93]])"
| "iterencode F (PyDict d) level =
     (if d = [] then [ascii ''{}'']
      else [[123], newline_indent (Suc level)] @ iterencode_dict F True d (Suc level)
             @ [newline_indent level, [125]])"
| "iterencode F (PyStr s) level = [encode_basestring s]"
| "iterencode F PyNone level = [ascii ''null'']"
| "iterencode F (PyBool b) level = [if b then ascii ''true'' else ascii ''false'']"
| "iterencode F (PyInt i) level = [str_int i]"
| "iterencode F (PyFloat x) level = [ascii (float_str F x)]"
| "iterencode_list F buf [] level = []"
| "iterencode_list F buf (v # vs) level =
     (case scalar_text F v of
        Some t \<Rightarrow> [buf @ t]
      | None \<Rightarrow> buf # iterencode F v level)
     @ iterencode_list F (44 # newline_indent level) vs level"
| "iterencode_dict F first [] level = []"
| "iterencode_dict F first (kv # kvs) level =
     (if first then [] else [44 # newline_indent level])
     @ [encode_basestring (fst kv), ascii '': '']
     @ (case scalar_text F (snd kv) of
          Some t \<Rightarrow> [t]
        | None \<Rightarrow> iterencode F (snd kv) level)
     @ iterencode_dict F False kvs level"

definition json_dumps :: "'f float_ops \<Rightarrow> 'f pyval \<Rightarrow> pystr" where
  "json_dumps F obj = concat (iterencode F obj 0)"

section \<open>Files opened with \<open>encoding="utf-8"\<close>\<close>

text \<open>
  A file holds bytes.  Text written to a file opened with \<open>encoding="utf-8"\<close> is encoded
  chunk by chunk; a chunk with a surrogate code point raises \<open>UnicodeEncodeError\<close> naming
  the first run of such characters, and nothing of that chunk is written.  Line ends are
  written as they are (\<open>os.linesep\<close> is the line feed, as on POSIX hosts), and opening and
  writing the file itself are taken to succeed.
\<close>

definition encodable :: "nat \<Rightarrow> bool" where
  "encodable c = (c < 0xD800 \<or> (0xDFFF < c \<and> c \<le> 0x10FFFF))"

definition utf8_char :: "nat \<Rightarrow> nat list" where
  "utf8_char c =
     (if c < 0x80 then [c]
      else if c < 0x800 then [0xC0 + c div 0x40, 0x80 + c mod 0x40]
      else if c < 0x10000 then [0xE0 + c div 0x1000, 0x80 + (c div 0x40) mod 0x40, 0x80 + c mod 0x40]
      else [0xF0 + c div 0x40000, 0x80 + (c div 0x1000) mod 0x40, 0x80 + (c div 0x40) mod 0x40,
            0x80 + c mod 0x40])"

definition utf8_encode :: "pystr \<Rightarrow> exn + nat list" where
  "utf8_encode s =
     (let start = length (takeWhile encodable s) in
      if start = length s then Inr (concat (map utf8_char s))
      else Inl (UnicodeEncodeError s start
                  (start + length (takeWhile (\<lambda>c. \<not> encodable c) (drop start s)))))"

fun write_chunks :: "nat list \<Rightarrow> pystr list \<Rightarrow> nat list \<times> (exn + unit)" where
  "write_chunks buf [] = (buf, Inr ())"
| "write_chunks buf (c # cs) =
     (case utf8_encode c of
        Inl e \<Rightarrow> (buf, Inl e)
      | Inr bs \<Rightarrow> write_chunks (buf @ bs) cs)"

section \<open>The configuration\<close>

text \<open>
  \<open>CONFIG\<close> of the source: the names of the two credential variables, the seed keywords
  (seven Korean phrases, given by their code points), the number of keywords asked for
  and the name of the output file.
\<close>

record config =
  OPENAI_API_KEY_SECRET :: pystr
  GEMINI_API_KEY_SECRET :: pystr
  SEED_KEYWORDS :: "pystr list"
  KEYWORD_COUNT :: int
  OUTPUT_FILENAME :: pystr

definition CONFIG :: config where
  "CONFIG = \<lparr>
     OPENAI_API_KEY_SECRET = ascii ''OPENAI_API_KEY'',
     GEMINI_API_KEY_SECRET = ascii ''GEMINI_API_KEY'',
     SEED_KEYWORDS =
       [[73, 84, 32, 53944, 47116, 46300],
        [65, 73, 32, 49888, 44592, 49696],
        [54764, 49828, 52992, 50612],
        [77, 90, 49464, 45824, 32, 50976, 54665],
        [44397, 45236, 50668, 54665, 32, 52628, 52380],
        [51116, 53580, 53356, 32, 48169, 48277],
        [52572, 49888, 32, 50689, 54868, 32, 47532, 48624]],
     KEYWORD_COUNT = 30,
     OUTPUT_FILENAME = ascii ''keywords.json'' \<rparr>"

section \<open>The world of a run\<close>

text \<open>
  What the script reads from outside is collected in a \<open>world\<close>: the process environment,
  the HTTP layer behind \<open>requests.post\<close> (it answers a request with a response, or fails
  with the message of a transport exception), the date string that
  \<open>datetime.now().strftime\<close> returns, and the float operations.  What it changes is the
  \<open>state\<close>: the files, the lines printed, and the requests handed to the HTTP layer.
  The status line of a response (reason and URL) consists of Latin-1 bytes.  Printing is
  taken to succeed, and only exceptions that \<open>except Exception\<close> catches are modelled.
\<close>

record 'f http_request =
  req_url :: pystr
  req_headers :: "(pystr \<times> pystr) list"
  req_json :: "'f pyval"

record http_response =
  resp_status_code :: nat
  resp_reason :: string
  resp_url :: string
  resp_text :: pystr

record 'f world =
  environ :: "pystr \<Rightarrow> pystr option"
  http_post :: "'f http_request \<Rightarrow> pystr + http_response"
  today :: pystr
  fops :: "'f float_ops"

record 'f state =
  files :: "pystr \<Rightarrow> nat list option"
  stdout :: "pystr list"
  posted :: "'f http_request list"

definition py_print :: "pystr \<Rightarrow> 'f state \<Rightarrow> 'f state" where
  "py_print line st = st\<lparr>stdout := stdout st @ [line]\<rparr>"

definition requests_post :: "'f world \<Rightarrow> 'f http_request \<Rightarrow> 'f state \<Rightarrow> 'f state \<times> (exn + http_response)" where
  "requests_post W rq st =
     (st\<lparr>posted := posted st @ [rq]\<rparr>,
      case http_post W rq of Inl m \<Rightarrow> Inl (RequestException m) | Inr r \<Rightarrow> Inr r)"

definition raise_for_status :: "http_response \<Rightarrow> exn + unit" where
  "raise_for_status r =
     (if 400 \<le> resp_status_code r \<and> resp_status_code r < 500 then
        Inl (HTTPError (str_nat (resp_status_code r) @ ascii '' Client Error: ''
               @ ascii (resp_reason r) @ ascii '' for url: '' @ ascii (resp_url r)))
      else if 500 \<le> resp_status_code r \<and> resp_status_code r < 600 then
        Inl (HTTPError (str_nat (resp_status_code r) @ ascii '' Server Error: ''
               @ ascii (resp_reason r) @ ascii '' for url: '' @ ascii (resp_url r)))
      else Inr ())"

definition response_json :: "'f float_ops \<Rightarrow> http_response \<Rightarrow> exn + 'f pyval" where
  "response_json F r = json_loads F (resp_text r)"

text \<open>Subscription \<open>v[k]\<close> with a string or an integer literal, and \<open>dict.get\<close>.\<close>

datatype index = Key string | Idx nat

definition type_name :: "'f pyval \<Rightarrow> string" where
  "type_name v =
     (case v of PyNone \<Rightarrow> ''NoneType'' | PyBool b \<Rightarrow> ''bool'' | PyInt i \<Rightarrow> ''int''
      | PyFloat x \<Rightarrow> ''float'' | PyStr s \<Rightarrow> ''str'' | PyList xs \<Rightarrow> ''list'' | PyDict d \<Rightarrow> ''dict'')"

definition not_subscriptable :: "'f pyval \<Rightarrow> exn" where
  "not_subscriptable v = TypeError ([39] @ ascii (type_name v) @ [39] @ ascii '' object is not subscriptable'')"

fun subscript :: "'f pyval \<Rightarrow> index \<Rightarrow> exn + 'f pyval" where
  "subscript (PyDict d) (Key k) =
     (case map_of d (ascii k) of
        None \<Rightarrow> Inl (KeyError ([39] @ ascii k @ [39]))
      | Some v \<Rightarrow> Inr v)"
| "subscript (PyDict d) (Idx i) = Inl (KeyError (str_nat i))"
| "subscript (PyList xs) (Idx i) =
     (if i < length xs then Inr (xs ! i) else Inl (IndexError (ascii ''list index out of range'')))"
| "subscript (PyList xs) (Key k) =
     Inl (TypeError (ascii ''list indices must be integers or slices, not str''))"
| "subscript (PyStr s) (Idx i) =
     (if i < length s then Inr (PyStr [s ! i]) else Inl (IndexError (ascii ''string index out of range'')))"
| "subscript (PyStr s) (Key k) =
     Inl (TypeError (ascii ''string indices must be integers, not '' @ [39] @ ascii ''str'' @ [39]))"
| "subscript v i = Inl (not_subscriptable v)"

fun subscripts :: "'f pyval \<Rightarrow> index list \<Rightarrow> exn + 'f pyval" where
  "subscripts v [] = Inr v"
| "subscripts v (i # rest) =
     (case subscript v i of Inl e \<Rightarrow> Inl e | Inr v' \<Rightarrow> subscripts v' rest)"

definition no_attribute :: "'f pyval \<Rightarrow> string \<Rightarrow> exn" where
  "no_attribute v name =
     AttributeError ([39] @ ascii (type_name v) @ [39] @ ascii '' object has no attribute ''
                       @ [39] @ ascii name @ [39])"

definition dict_get :: "'f pyval \<Rightarrow> pystr \<Rightarrow> 'f pyval \<Rightarrow> exn + 'f pyval" where
  "dict_get v k dflt =
     (case v of
        PyDict d \<Rightarrow> Inr (case map_of d k of None \<Rightarrow> dflt | Some x \<Rightarrow> x)
      | _ \<Rightarrow> Inl (no_attribute v ''get''))"

section \<open>\<open>call_ai\<close>\<close>

text \<open>The fixed texts of \<open>call_ai\<close>: the two progress lines and the message of its \<open>ValueError\<close>.\<close>

definition gemini_banner :: pystr where
  "gemini_banner =
     [71, 101, 109, 105, 110, 105, 32, 65, 80, 73, 47484, 32, 49324, 50857, 54616, 50668, 32,
      53412, 50892, 46300, 47484, 32, 49373, 49457, 54633, 45768, 45796, 46]"

definition openai_banner :: pystr where
  "openai_banner =
     [79, 112, 101, 110, 65, 73, 32, 65, 80, 73, 47484, 32, 49324, 50857, 54616, 50668, 32,
      53412, 50892, 46300, 47484, 32, 49373, 49457, 54633, 45768, 45796, 46]"

definition no_api_key_message :: pystr where
  "no_api_key_message =
     [65, 80, 73, 32, 53412, 44032, 32, 49444, 51221, 46104, 51648, 32, 50506, 50520, 49845,
      45768, 45796, 46, 32, 71, 105, 116, 72, 117, 98, 32, 83, 101, 99, 114, 101, 116, 115,
      47484, 32, 54869, 51064, 54616, 49464, 50836, 46]"

text \<open>
  \<open>os.getenv(name)\<close> is \<open>environ W name\<close>, \<open>None\<close> when the variable is not set.  A key is
  truthy when it is set and not empty; in an f-string \<open>None\<close> would print as \<open>None\<close>.
\<close>

definition format_opt :: "pystr option \<Rightarrow> pystr" where
  "format_opt k = (case k of None \<Rightarrow> ascii ''None'' | Some s \<Rightarrow> s)"

definition opt_truthy :: "pystr option \<Rightarrow> bool" where
  "opt_truthy k = (case k of None \<Rightarrow> False | Some s \<Rightarrow> s \<noteq> [])"

definition gemini_endpoint :: pystr where
  "gemini_endpoint =
     ascii ''https://generativelanguage.googleapis.com/v1beta/models/gemini-1.5-flash-latest:generateContent?key=''"

definition openai_endpoint :: pystr where
  "openai_endpoint = ascii ''https://api.openai.com/v1/chat/completions''"

definition call_ai :: "'f world \<Rightarrow> pystr \<Rightarrow> 'f state \<Rightarrow> 'f state \<times> (exn + 'f pyval)" where
  "call_ai W prompt st =
     (let openai_key = environ W (OPENAI_API_KEY_SECRET CONFIG);
          gemini_key = environ W (GEMINI_API_KEY_SECRET CONFIG)
      in
      if opt_truthy gemini_key then
        (let st1 = py_print gemini_banner st;
             api_url = gemini_endpoint @ format_opt gemini_key;
             payload = PyDict
               [(ascii ''contents'', PyList [PyDict [(ascii ''parts'', PyList [PyDict [(ascii ''text'', PyStr prompt)]])]]),
                (ascii ''generationConfig'', PyDict [(ascii ''response_mime_type'', PyStr (ascii ''application/json''))])];
             (st2, posted_result) = requests_post W \<lparr>req_url = api_url, req_headers = [], req_json = payload\<rparr> st1
         in case posted_result of
              Inl e \<Rightarrow> (st2, Inl e)
            | Inr response \<Rightarrow>
                (case raise_for_status response of
                   Inl e \<Rightarrow> (st2, Inl e)
                 | Inr u \<Rightarrow>
                     (case response_json (fops W) response of
                        Inl e \<Rightarrow> (st2, Inl e)
                      | Inr json_response \<Rightarrow>
                          (st2, subscripts json_response
                                  [Key ''candidates'', Idx 0, Key ''content'', Key ''parts'', Idx 0, Key ''text'']))))
      else if opt_truthy openai_key then
        (let st1 = py_print openai_banner st;
             api_url = openai_endpoint;
             headers = [(ascii ''Authorization'', ascii ''Bearer '' @ format_opt openai_key)];
             payload = PyDict
               [(ascii ''model'', PyStr (ascii ''gpt-4o-mini'')),
                (ascii ''messages'', PyList [PyDict [(ascii ''role'', PyStr (ascii ''user'')), (ascii ''content'', PyStr prompt)]]),
                (ascii ''response_format'', PyDict [(ascii ''type'', PyStr (ascii ''json_object''))])];
             (st2, posted_result) = requests_post W \<lparr>req_url = api_url, req_headers = headers, req_json = payload\<rparr> st1
         in case posted_result of
              Inl e \<Rightarrow> (st2, Inl e)
            | Inr response \<Rightarrow>
                (case raise_for_status response of
                   Inl e \<Rightarrow> (st2, Inl e)
                 | Inr u \<Rightarrow>
                     (case response_json (fops W) response of
                        Inl e \<Rightarrow> (st2, Inl e)
                      | Inr json_response \<Rightarrow>
                          (st2, subscripts json_response
                                  [Key ''choices'', Idx 0, Key ''message'', Key ''content'']))))
      else (st, Inl (ValueError no_api_key_message)))"

section \<open>\<open>main\<close>\<close>

text \<open>
  The pieces of the prompt template (between them the date, the keyword count, the seed
  keywords joined with a comma and a space, and the shape of the expected answer), and
  the fixed texts of the progress, success and error lines.
\<close>

definition prompt_part1 :: pystr where
  "prompt_part1 =
     [10, 32, 32, 32, 32, 32, 32, 32, 32]"

definition prompt_part2 :: pystr where
  "prompt_part2 =
     [32, 44592, 51456, 44, 32, 45824, 54620, 48124, 44397, 32, 52572, 49888, 32, 53944, 47116,
      46300, 47484, 32, 51333, 54633, 51201, 51004, 47196, 32, 48152, 50689, 54616, 50668, 32,
      48660, 47196, 44536, 32, 44544, 44048, 51004, 47196, 32, 54876, 50857, 54624, 32, 39,
      47217, 53580, 51068, 32, 53412, 50892, 46300, 39, 47484, 32]"

definition prompt_part3 :: pystr where
  "prompt_part3 =
     [44060, 32, 49373, 49457, 54644, 51480, 46, 10, 10, 32, 32, 32, 32, 32, 32, 32, 32, 45796,
      51020, 32, 50472, 50519, 32, 53412, 50892, 46300, 46308, 51012, 32, 52280, 44256, 54616,
      46104, 44, 32, 50668, 44592, 50640, 32, 50630, 45716, 32, 50756, 51204, 55176, 32, 49352,
      47196, 50868, 32, 48516, 50556, 51032, 32, 53412, 50892, 46300, 46020, 32, 51201, 44537,
      51201, 51004, 47196, 32, 54252, 54632, 49884, 53020, 51480, 46, 10, 32, 32, 32, 32, 32,
      32, 32, 32, 50472, 50519, 32, 53412, 50892, 46300, 58, 32]"

definition prompt_part4 :: pystr where
  "prompt_part4 =
     [10, 10, 32, 32, 32, 32, 32, 32, 32, 32, 91, 44508, 52825, 93, 10, 32, 32, 32, 32, 32, 32,
      32, 32, 45, 32, 73, 84, 44, 32, 44148, 44053, 44, 32, 44221, 51228, 44, 32, 50668, 54665,
      44, 32, 47928, 54868, 44, 32, 46972, 51060, 54532, 49828, 53440, 51068, 32, 46321, 32,
      45796, 50577, 54620, 32, 51452, 51228, 47484, 32, 54252, 54632, 54644, 50556, 32, 54644,
      46, 10, 32, 32, 32, 32, 32, 32, 32, 32, 45, 32, 44033, 32, 53412, 50892, 46300, 45716,
      32, 39, 50, 48, 50, 53, 45380, 32, 45796, 51060, 50612, 47532, 32, 52628, 52380, 39, 44,
      32, 39, 44200, 50872, 52384, 32, 49892, 45236, 32, 45936, 51060, 53944, 32, 53076, 49828,
      39, 32, 52376, 47100, 32, 44396, 52404, 51201, 51064, 32, 44160, 49353, 50612, 32, 54805,
      53468, 50668, 50556, 32, 54644, 46, 10, 32, 32, 32, 32, 32, 32, 32, 32, 45, 32, 44208,
      44284, 45716, 32, 48152, 46300, 49884, 32]"

definition prompt_part5 :: pystr where
  "prompt_part5 =
     [32, 54805, 49885, 51032, 32, 74, 83, 79, 78, 32, 44061, 52404, 47196, 47564, 32, 51025,
      45813, 54644, 50556, 32, 54644, 46, 32, 45796, 47480, 32, 49444, 47749, 51008, 32, 51208,
      45824, 32, 52628, 44032, 54616, 51648, 32, 47560, 46, 10, 32, 32, 32, 32]"

definition prompt_shape :: pystr where
  "prompt_shape =
     [123, 32, 39, 107, 101, 121, 119, 111, 114, 100, 115, 39, 58, 32, 91, 39, 53412, 50892,
      46300, 49, 39, 44, 32, 39, 53412, 50892, 46300, 50, 39, 44, 32, 46, 46, 46, 93, 32, 125]"

definition request_banner_1 :: pystr where
  "request_banner_1 =
     [65, 73, 50640, 44172, 32]"

definition request_banner_2 :: pystr where
  "request_banner_2 =
     [44060, 51032, 32, 53944, 47116, 46300, 32, 53412, 50892, 46300, 32, 49373, 49457, 51012,
      32, 50836, 52397, 54633, 45768, 45796, 46, 46, 46]"

definition no_keywords_message :: pystr where
  "no_keywords_message =
     [65, 73, 44032, 32, 50976, 54952, 54620, 32, 53412, 50892, 46300, 47484, 32, 49373, 49457,
      54616, 51648, 32, 47803, 54664, 49845, 45768, 45796, 46]"

definition success_1 :: pystr where
  "success_1 =
     [9989, 32, 49457, 44277, 58, 32]"

definition success_2 :: pystr where
  "success_2 =
     [44060, 51032, 32, 53412, 50892, 46300, 47484, 32, 39]"

definition success_3 :: pystr where
  "success_3 =
     [39, 32, 54028, 51068, 50640, 32, 51200, 51109, 54664, 49845, 45768, 45796, 46]"

definition error_banner :: pystr where
  "error_banner =
     [10060, 32, 50724, 47448, 44032, 32, 48156, 49373, 54664, 49845, 45768, 45796, 58, 32]"

definition error_entry_prefix :: pystr where
  "error_entry_prefix =
     [53412, 50892, 46300, 32, 49373, 49457, 32, 51473, 32, 50724, 47448, 32, 48156, 49373, 58,
      32]"

fun join :: "pystr \<Rightarrow> pystr list \<Rightarrow> pystr" where
  "join sep [] = []"
| "join sep [x] = x"
| "join sep (x # y # rest) = x @ sep @ join sep (y # rest)"

definition build_prompt :: "pystr \<Rightarrow> pystr" where
  "build_prompt day =
     prompt_part1 @ day @ prompt_part2 @ str_int (KEYWORD_COUNT CONFIG) @ prompt_part3
       @ join (ascii '', '') (SEED_KEYWORDS CONFIG) @ prompt_part4 @ prompt_shape @ prompt_part5"

text \<open>\<open>str.strip()\<close> removes the characters for which \<open>str.isspace\<close> holds from both ends.\<close>

definition is_space :: "nat \<Rightarrow> bool" where
  "is_space c =
     ((9 \<le> c \<and> c \<le> 13) \<or> (28 \<le> c \<and> c \<le> 32) \<or> c = 0x85 \<or> c = 0xA0 \<or> c = 0x1680
      \<or> (0x2000 \<le> c \<and> c \<le> 0x200A) \<or> c = 0x2028 \<or> c = 0x2029 \<or> c = 0x202F \<or> c = 0x205F
      \<or> c = 0x3000)"

definition py_strip :: "pystr \<Rightarrow> pystr" where
  "py_strip s = rev (dropWhile is_space (rev (dropWhile is_space s)))"

definition json_fence :: pystr where
  "json_fence = [96, 96, 96] @ ascii ''json''"

text \<open>
  Lines 80 and 81 of the source: when the stripped text starts with the fence marker, the
  text becomes the slice \<open>[7:-3]\<close> of the stripped text, stripped again; otherwise it stays
  as it is.  On a value that is not a \<open>str\<close> the call of \<open>strip\<close> raises \<open>AttributeError\<close>.
\<close>

definition strip_fence :: "'f pyval \<Rightarrow> exn + pystr" where
  "strip_fence ai_response_text =
     (case ai_response_text of
        PyStr s \<Rightarrow>
          Inr (if is_prefix json_fence (py_strip s)
               then py_strip (drop 7 (take (length (py_strip s) - 3) (py_strip s)))
               else s)
      | _ \<Rightarrow> Inl (no_attribute ai_response_text ''strip''))"

text \<open>
  \<open>with open(CONFIG["OUTPUT_FILENAME"], "w", encoding="utf-8") as f: json.dump({"keywords": kw}, f,
  ensure_ascii=False, indent=2)\<close>: the file is truncated or created, the chunks are written,
  and the file is closed also when a chunk raises.
\<close>

definition write_keywords :: "'f float_ops \<Rightarrow> 'f pyval \<Rightarrow> 'f state \<Rightarrow> 'f state \<times> (exn + unit)" where
  "write_keywords F kw st =
     (let (bytes, r) = write_chunks [] (iterencode F (PyDict [(ascii ''keywords'', kw)]) 0)
      in (st\<lparr>files := (files st)(OUTPUT_FILENAME CONFIG \<mapsto> bytes)\<rparr>, r))"

text \<open>
  Lines 80 to 92 of the source, the part of the \<open>try\<close> block that follows the call of
  \<open>call_ai\<close>: the fence is stripped, the text is parsed, the keywords are extracted and
  checked, the file is written and the success line is printed.  The length of the
  keywords is computed when the success line is formatted, after the file has been
  written.
\<close>

definition process_response :: "'f float_ops \<Rightarrow> 'f pyval \<Rightarrow> 'f state \<Rightarrow> 'f state \<times> (exn + unit)" where
  "process_response F ai_response_text st =
     (case strip_fence ai_response_text of
        Inl e \<Rightarrow> (st, Inl e)
      | Inr text \<Rightarrow>
          (case json_loads F text of
             Inl e \<Rightarrow> (st, Inl e)
           | Inr result \<Rightarrow>
               (case dict_get result (ascii ''keywords'') (PyList []) of
                  Inl e \<Rightarrow> (st, Inl e)
                | Inr keywords \<Rightarrow>
                    if \<not> truthy F keywords then (st, Inl (ValueError no_keywords_message))
                    else
                      (let (st1, written) = write_keywords F keywords st
                       in case written of
                            Inl e \<Rightarrow> (st1, Inl e)
                          | Inr u \<Rightarrow>
                              (case py_len keywords of
                                 Inl e \<Rightarrow> (st1, Inl e)
                               | Inr n \<Rightarrow>
                                   (py_print (success_1 @ str_nat n @ success_2
                                                @ OUTPUT_FILENAME CONFIG @ success_3) st1,
                                    Inr ()))))))"

text \<open>The body of the \<open>try\<close> block of \<open>main\<close>.\<close>

definition request_line :: pystr where
  "request_line = request_banner_1 @ str_int (KEYWORD_COUNT CONFIG) @ request_banner_2"

definition main_try :: "'f world \<Rightarrow> 'f state \<Rightarrow> 'f state \<times> (exn + unit)" where
  "main_try W st =
     (let prompt = build_prompt (today W);
          st1 = py_print request_line st;
          (st2, called) = call_ai W prompt st1
      in case called of
           Inl e \<Rightarrow> (st2, Inl e)
         | Inr ai_response_text \<Rightarrow> process_response (fops W) ai_response_text st2)"

text \<open>
  \<open>main\<close>: the \<open>try\<close> block and its handler \<open>except Exception as e\<close>, which prints the
  error, writes the error entry and raises \<open>e\<close> again.  An exception raised while the
  handler writes replaces \<open>e\<close>.
\<close>

definition main :: "'f world \<Rightarrow> 'f state \<Rightarrow> 'f state \<times> (exn + unit)" where
  "main W st =
     (case main_try W st of
        (st1, Inr u) \<Rightarrow> (st1, Inr u)
      | (st1, Inl e) \<Rightarrow>
          (let st2 = py_print (error_banner @ exn_str e) st1;
               (st3, written) =
                 write_keywords (fops W) (PyList [PyStr (error_entry_prefix @ exn_str e)]) st2
           in case written of
                Inl e2 \<Rightarrow> (st3, Inl e2)
              | Inr u \<Rightarrow> (st3, Inl e)))"

section \<open>What a run leaves behind\<close>

text \<open>
  Names for the outcomes the specification talks about: the UTF-8 bytes of a text, the
  document written for a keywords value, the one-element error entry of the handler,
  and the state after the handler has printed and written.  An exception is \<open>plain\<close> when
  its message can be encoded as UTF-8.
\<close>

definition utf8_bytes :: "pystr \<Rightarrow> nat list" where
  "utf8_bytes s = concat (map utf8_char s)"

definition plain :: "exn \<Rightarrow> bool" where
  "plain e = list_all encodable (exn_str e)"

definition keywords_document :: "'f float_ops \<Rightarrow> 'f pyval \<Rightarrow> pystr" where
  "keywords_document F kw = json_dumps F (PyDict [(ascii ''keywords'', kw)])"

definition error_entry :: "exn \<Rightarrow> 'f pyval" where
  "error_entry e = PyList [PyStr (error_entry_prefix @ exn_str e)]"

definition error_outcome :: "'f float_ops \<Rightarrow> exn \<Rightarrow> 'f state \<Rightarrow> 'f state" where
  "error_outcome F e st =
     (py_print (error_banner @ exn_str e) st)
       \<lparr>files := (files st)(OUTPUT_FILENAME CONFIG \<mapsto> utf8_bytes (keywords_document F (error_entry e)))\<rparr>"

definition success_line :: "nat \<Rightarrow> pystr" where
  "success_line n = success_1 @ str_nat n @ success_2 @ OUTPUT_FILENAME CONFIG @ success_3"

definition written :: "'f float_ops \<Rightarrow> 'f pyval \<Rightarrow> 'f state \<Rightarrow> 'f state" where
  "written F kw st =
     st\<lparr>files := (files st)(OUTPUT_FILENAME CONFIG \<mapsto> utf8_bytes (keywords_document F kw))\<rparr>"

definition dumps_at :: "'f float_ops \<Rightarrow> 'f pyval \<Rightarrow> nat \<Rightarrow> pystr" where
  "dumps_at F v level = concat (iterencode F v level)"

text \<open>The lines of a non-empty list of strings at a given indentation level.\<close>

definition items_text :: "nat \<Rightarrow> pystr list \<Rightarrow> pystr" where
  "items_text level xs = join (44 # newline_indent level) (map encode_basestring xs)"

section \<open>Reading the output file back\<close>

text \<open>
  What a reader of the output file does: \<open>json.load(open(path, encoding="utf-8"))\<close>.  The
  bytes are decoded as UTF-8 (strictly: no overlong forms, no surrogates, nothing above
  U+10FFFF), line ends are translated as text mode does, and the text is parsed.
\<close>

definition continuation :: "nat \<Rightarrow> bool" where
  "continuation b = (0x80 \<le> b \<and> b \<le> 0xBF)"

fun utf8_decode :: "nat list \<Rightarrow> pystr option" where
  "utf8_decode [] = Some []"
| "utf8_decode (b0 # bs) =
     (if b0 < 0x80 then map_option (Cons b0) (utf8_decode bs)
      else if 0xC2 \<le> b0 \<and> b0 \<le> 0xDF then
        (case bs of
           b1 # r \<Rightarrow>
             if continuation b1
             then map_option (Cons ((b0 - 0xC0) * 0x40 + (b1 - 0x80))) (utf8_decode r)
             else None
         | _ \<Rightarrow> None)
      else if 0xE0 \<le> b0 \<and> b0 \<le> 0xEF then
        (case bs of
           b1 # b2 # r \<Rightarrow>
             if continuation b1 \<and> continuation b2
                \<and> 0x800 \<le> (b0 - 0xE0) * 0x1000 + (b1 - 0x80) * 0x40 + (b2 - 0x80)
                \<and> encodable ((b0 - 0xE0) * 0x1000 + (b1 - 0x80) * 0x40 + (b2 - 0x80))
             then map_option (Cons ((b0 - 0xE0) * 0x1000 + (b1 - 0x80) * 0x40 + (b2 - 0x80)))
                    (utf8_decode r)
             else None
         | _ \<Rightarrow> None)
      else if 0xF0 \<le> b0 \<and> b0 \<le> 0xF4 then
        (case bs of
           b1 # b2 # b3 # r \<Rightarrow>
             if continuation b1 \<and> continuation b2 \<and> continuation b3
                \<and> 0x10000 \<le> (b0 - 0xF0) * 0x40000 + (b1 - 0x80) * 0x1000 + (b2 - 0x80) * 0x40 + (b3 - 0x80)
                \<and> (b0 - 0xF0) * 0x40000 + (b1 - 0x80) * 0x1000 + (b2 - 0x80) * 0x40 + (b3 - 0x80) \<le> 0x10FFFF
             then map_option
                    (Cons ((b0 - 0xF0) * 0x40000 + (b1 - 0x80) * 0x1000 + (b2 - 0x80) * 0x40 + (b3 - 0x80)))
                    (utf8_decode r)
             else None
         | _ \<Rightarrow> None)
      else None)"

fun universal_newlines :: "pystr \<Rightarrow> pystr" where
  "universal_newlines [] = []"
| "universal_newlines [c] = [if c = 13 then 10 else c]"
| "universal_newlines (c # d # r) =
     (if c = 13 \<and> d = 10 then 10 # universal_newlines r
      else if c = 13 then 10 # universal_newlines (d # r)
      else c # universal_newlines (d # r))"

definition json_load_file :: "'f float_ops \<Rightarrow> 'f state \<Rightarrow> 'f pyval option" where
  "json_load_file F st =
     (case files st (OUTPUT_FILENAME CONFIG) of
        None \<Rightarrow> None
      | Some bytes \<Rightarrow>
          (case utf8_decode bytes of
             None \<Rightarrow> None
           | Some t \<Rightarrow>
               (case json_loads F (universal_newlines t) of
                  Inl e \<Rightarrow> None
                | Inr v \<Rightarrow> Some v)))"

section \<open>The error kinds of the specification\<close>

text \<open>
  The specification names four kinds of error.  In the source the configuration and the
  validation error are \<open>ValueError\<close>s with fixed messages, the HTTP error is the
  \<open>HTTPError\<close> of \<open>raise_for_status\<close>, and the parse error is the \<open>JSONDecodeError\<close> of
  \<open>json.loads\<close>.
\<close>

definition ConfigurationError :: exn where
  "ConfigurationError = ValueError no_api_key_message"

definition ValidationError :: exn where
  "ValidationError = ValueError no_keywords_message"

fun is_HttpError :: "exn \<Rightarrow> bool" where
  "is_HttpError (HTTPError m) = True"
| "is_HttpError e = False"

fun is_ParseError :: "exn \<Rightarrow> bool" where
  "is_ParseError (JSONDecodeError msg doc pos) = True"
| "is_ParseError e = False"

section \<open>Concrete worlds\<close>

text \<open>
  A world without floats, whose HTTP layer answers every request with the same status
  and body, and the state before a run.
\<close>

definition no_floats :: "unit float_ops" where
  "no_floats = \<lparr>float_of_literal = (\<lambda>t. ()), float_nan = (), float_inf = (), float_neg_inf = (),
     float_bool = (\<lambda>x. True), float_str = (\<lambda>x. ''nan'')\<rparr>"

definition stub_world :: "(pystr \<Rightarrow> pystr option) \<Rightarrow> nat \<Rightarrow> pystr \<Rightarrow> unit world" where
  "stub_world env status body =
     \<lparr>environ = env,
      http_post = (\<lambda>rq. Inr \<lparr>resp_status_code = status, resp_reason = ''stub'',
                              resp_url = ''stub'', resp_text = body\<rparr>),
      today = ascii ''2025'' @ [45380, 32] @ ascii ''01'' @ [50900, 32] @ ascii ''05'' @ [51068],
      fops = no_floats\<rparr>"

definition initial_state :: "unit state" where
  "initial_state = \<lparr>files = (\<lambda>path. None), stdout = [], posted = []\<rparr>"

definition gemini_name :: pystr where
  "gemini_name = GEMINI_API_KEY_SECRET CONFIG"

definition openai_name :: pystr where
  "openai_name = OPENAI_API_KEY_SECRET CONFIG"

text \<open>
  An HTTP layer that answers as the chat-completions endpoint does, with a given text as
  the content of the first choice; the world in which only the OpenAI credential is set
  and the HTTP layer is that one; and some response texts.
\<close>

definition quoted :: "string \<Rightarrow> pystr" where
  "quoted s = [34] @ ascii s @ [34]"

definition openai_envelope :: "pystr \<Rightarrow> pystr" where
  "openai_envelope content =
     ascii ''{'' @ quoted ''choices'' @ ascii '':[{'' @ quoted ''message'' @ ascii '':{''
       @ quoted ''content'' @ ascii '':'' @ encode_basestring content @ ascii ''}}]}''"

definition openai_stub :: "nat \<Rightarrow> pystr \<Rightarrow> unit world" where
  "openai_stub status content =
     stub_world [openai_name \<mapsto> ascii ''sk-test''] status (openai_envelope content)"

definition fenced_example :: pystr where
  "fenced_example =
     [96, 96, 96] @ ascii ''json'' @ [10] @ ascii ''{'' @ quoted ''keywords'' @ ascii '':[''
       @ quoted ''x'' @ ascii '']}'' @ [10, 96, 96, 96]"

definition keywords_x :: pystr where
  "keywords_x = ascii ''{'' @ quoted ''keywords'' @ ascii '':['' @ quoted ''x'' @ ascii '']}''"

definition content_empty_object :: pystr where
  "content_empty_object = ascii ''{}''"

definition content_not_json :: pystr where
  "content_not_json = ascii ''not json''"

definition content_number :: pystr where
  "content_number = ascii ''{'' @ quoted ''keywords'' @ ascii '': 5}''"

definition content_string :: pystr where
  "content_string = ascii ''{'' @ quoted ''keywords'' @ ascii '': '' @ quoted ''abc'' @ ascii ''}''"

definition content_ab :: pystr where
  "content_ab = ascii ''{'' @ quoted ''keywords'' @ ascii '': ['' @ quoted ''a'' @ ascii '', '' @ quoted ''b'' @ ascii '']}''"

text \<open>
  Two more response texts: an object whose \<open>keywords\<close> are a list of one string, written
  as the JSON escape of the lone surrogate U+D800, and \<open>{"keywords": {"a": 1}}\<close>, whose
  keywords are an object.  Then the text that \<open>json.dump\<close> writes before it comes to the
  value of \<open>keywords\<close>, and a keyword outside ASCII (U+ACA8 U+C6B8).
\<close>

definition content_surrogate :: pystr where
  "content_surrogate =
     ascii ''{'' @ quoted ''keywords'' @ ascii '': ['' @ [34, 92] @ ascii ''ud800'' @ [34] @ ascii '']}''"

definition content_object :: pystr where
  "content_object = ascii ''{'' @ quoted ''keywords'' @ ascii '': {'' @ quoted ''a'' @ ascii '': 1}}''"

definition document_head :: pystr where
  "document_head = ascii ''{'' @ [10] @ ascii ''  '' @ quoted ''keywords'' @ ascii '': ''"

definition winter :: pystr where
  "winter = [0xACA8, 0xC6B8]"


definition plain_fence_example :: pystr where
  "plain_fence_example =
     [96, 96, 96, 10] @ ascii ''{'' @ quoted ''keywords'' @ ascii '':['' @ quoted ''x'' @ ascii '']}''
       @ [10, 96, 96, 96]"

definition wide_fence_example :: pystr where
  "wide_fence_example = json_fence @ [0x3000] @ keywords_x @ [0x3000, 96, 96, 96]"

section \<open>Encoding and error messages\<close>

lemma credential_names_distinct: "gemini_name \<noteq> openai_name"
  by (simp add: gemini_name_def openai_name_def CONFIG_def ascii_def)

lemma opt_truthy_simps [simp]:
  "opt_truthy None = False" "opt_truthy (Some s) = (s \<noteq> [])"
  by (simp_all add: opt_truthy_def)

lemma utf8_encode_ok:
  assumes "list_all encodable s"
  shows "utf8_encode s = Inr (utf8_bytes s)"
proof -
  from assms have "takeWhile encodable s = s"
    by (simp add: takeWhile_eq_all_conv list_all_iff)
  then have "length (takeWhile encodable s) = length s"
    by (rule arg_cong)
  then show ?thesis
    by (simp add: utf8_encode_def utf8_bytes_def)
qed

lemma utf8_encode_fail:
  "\<not> list_all encodable s \<Longrightarrow> \<exists>i j. utf8_encode s = Inl (UnicodeEncodeError s i j)"
proof -
  assume a: "\<not> list_all encodable s"
  have "length (takeWhile encodable s) \<noteq> length s"
  proof
    assume "length (takeWhile encodable s) = length s"
    then have "takeWhile encodable s = s"
      by (metis takeWhile_dropWhile_id append_self_conv length_0_conv length_append add_cancel_left_right)
    with a show False by (simp add: takeWhile_eq_all_conv list_all_iff)
  qed
  then show ?thesis by (simp add: utf8_encode_def Let_def)
qed

lemma utf8_bytes_append: "utf8_bytes (a @ b) = utf8_bytes a @ utf8_bytes b"
  by (simp add: utf8_bytes_def)

lemma write_chunks_ok:
  "list_all encodable (concat chunks) \<Longrightarrow>
   write_chunks buf chunks = (buf @ utf8_bytes (concat chunks), Inr ())"
proof (induction chunks arbitrary: buf)
  case Nil
  then show ?case by (simp add: utf8_bytes_def)
next
  case (Cons c cs)
  then show ?case by (simp add: utf8_encode_ok utf8_bytes_append)
qed

lemma write_chunks_fail:
  "\<not> list_all encodable (concat chunks) \<Longrightarrow>
   \<exists>b obj i j. write_chunks buf chunks = (b, Inl (UnicodeEncodeError obj i j))"
proof (induction chunks arbitrary: buf)
  case Nil
  then show ?case by simp
next
  case (Cons c cs)
  show ?case
  proof (cases "list_all encodable c")
    case True
    with Cons.prems have "\<not> list_all encodable (concat cs)" by simp
    from Cons.IH [OF this] True show ?thesis by (simp add: utf8_encode_ok)
  next
    case False
    from utf8_encode_fail [OF this] show ?thesis by auto
  qed
qed

lemma enc_small [simp]: "c < 256 \<Longrightarrow> encodable c"
  by (simp add: encodable_def)

lemma enc_ascii [simp]: "list_all encodable (ascii s)"
  by (simp add: ascii_def list_all_iff)

lemma enc_str_nat [simp]: "list_all encodable (str_nat n)"
proof (induction n rule: str_nat.induct)
  case (1 n)
  have d: "48 + n mod 10 < 256" by simp
  show ?case
  proof (cases "n < 10")
    case True
    then show ?thesis by (subst str_nat.simps) simp
  next
    case False
    with 1 d show ?thesis by (subst str_nat.simps) simp
  qed
qed

lemma enc_hexdigit: "d < 16 \<Longrightarrow> encodable (hexdigit d)"
  by (simp add: hexdigit_def)

lemma enc_hex_fixed [simp]: "list_all encodable (hex_fixed w n)"
  by (simp add: hex_fixed_def list_all_iff enc_hexdigit)

lemma enc_bad_char_text [simp]: "list_all encodable (bad_char_text c)"
  by (simp add: bad_char_text_def)

lemma enc_invalid [simp]:
  "list_all encodable invalid_escape" "list_all encodable invalid_uXXXX"
  "list_all encodable expecting_value"
  by (simp_all add: invalid_escape_def invalid_uXXXX_def expecting_value_def)

lemma unicode_escape_msg:
  "unicode_escape r = Inl (m, k) \<Longrightarrow> list_all encodable m"
  by (auto simp: unicode_escape_def Let_def split: if_splits option.splits)

lemma scanstring_msg:
  "scanstring b acc k cs = Inl (m, n) \<Longrightarrow> list_all encodable m"
proof (induction b acc k cs rule: scanstring.induct)
  case (1 b acc k)
  then show ?case by auto
next
  case (2 b acc k c r)
  show ?case
  proof (cases "c = 34")
    case True
    with "2.prems" show ?thesis by simp
  next
    case n34: False
    show ?thesis
    proof (cases "c = 92")
      case c92: True
      show ?thesis
      proof (cases r)
        case Nil
        with c92 "2.prems" show ?thesis by auto
      next
        case (Cons e r')
        show ?thesis
        proof (cases "e = 117")
          case False
          show ?thesis
          proof (cases "backslash e")
            case None
            with False Cons c92 "2.prems" show ?thesis by auto
          next
            case (Some ch)
            with False Cons c92 "2.prems" "2.IH"(1) [OF n34 c92 Cons False Some]
            show ?thesis by simp
          qed
        next
          case True
          show ?thesis
          proof (cases "unicode_escape r'")
            case (Inl err)
            with True Cons c92 "2.prems" unicode_escape_msg [of r' m n] show ?thesis by auto
          next
            case (Inr p)
            obtain ch k' where p: "p = (ch, k')" by (cases p)
            from "2.IH"(2) [OF n34 c92 Cons _ Inr [unfolded p] refl] True
            have "scanstring b (acc @ [ch]) (k + 2 + k') (drop k' r') = Inl (m, n) \<Longrightarrow> list_all encodable m"
              by simp
            with True Cons c92 "2.prems" Inr p show ?thesis by simp
          qed
        qed
      qed
    next
      case False
      show ?thesis
      proof (cases "c \<le> 31")
        case True
        with False n34 "2.prems" show ?thesis by auto
      next
        case c31: False
        with False n34 "2.prems" "2.IH"(3) [OF n34 False c31] show ?thesis by simp
      qed
    qed
  qed
qed

lemma pass_err:
  "(case x of Inl err \<Rightarrow> Inl err | Inr p \<Rightarrow> (case p of (v, n) \<Rightarrow> Inr (g v n))) = Inl e \<Longrightarrow> x = Inl e"
  by (auto split: sum.splits prod.splits)

lemma scan_msg:
  fixes F :: "'f float_ops"
  shows "scan_once F cs = Inl (m, n) \<Longrightarrow> list_all encodable m"
    and "scan_object F pairs cs = Inl (m, n) \<Longrightarrow> list_all encodable m"
    and "scan_array F vals cs = Inl (m, n) \<Longrightarrow> list_all encodable m"
proof (induction F cs and F pairs cs and F vals cs arbitrary: m n and m n and m n
        rule: scan_once_scan_object_scan_array.induct)
  case (1 F cs)
  note prem = "1.prems" [unfolded scan_once.simps [of F cs]]
  show ?case
  proof (cases cs)
    case Nil
    with prem show ?thesis by auto
  next
    case (Cons c r)
    show ?thesis
    proof (cases "c = 34")
      case True
      with prem Cons have "scanstring (length cs) [] 0 r = Inl (m, n)"
        by (auto split: sum.splits prod.splits)
      then show ?thesis by (rule scanstring_msg)
    next
      case n34: False
      show ?thesis
      proof (cases "c = 123")
        case True
        show ?thesis
        proof (cases "starts 125 (skip_ws r)")
          case True
          with prem Cons n34 \<open>c = 123\<close> show ?thesis by simp
        next
          case False
          with prem Cons n34 True have "scan_object F [] (skip_ws r) = Inl (m, n)"
            by (auto split: sum.splits prod.splits)
          with "1.IH"(1) [OF Cons n34 True False] show ?thesis by blast
        qed
      next
        case n123: False
        show ?thesis
        proof (cases "c = 91")
          case True
          show ?thesis
          proof (cases "starts 93 (skip_ws r)")
            case True
            with prem Cons n34 n123 \<open>c = 91\<close> show ?thesis by simp
          next
            case False
            with prem Cons n34 n123 True have "scan_array F [] (skip_ws r) = Inl (m, n)"
              by (auto split: sum.splits prod.splits)
            with "1.IH"(2) [OF Cons n34 n123 True False] show ?thesis by blast
          qed
        next
          case False
          with prem Cons n34 n123 have "m = expecting_value"
            by (auto split: if_splits option.splits prod.splits)
          then show ?thesis by simp
        qed
      qed
    qed
  qed
next
  case (2 F pairs cs)
  note prem = "2.prems" [unfolded scan_object.simps [of F pairs cs]]
  show ?case
  proof (cases cs)
    case Nil
    with prem show ?thesis by auto
  next
    case (Cons q r)
    show ?thesis
    proof (cases "q = 34")
      case False
      with prem Cons show ?thesis by auto
    next
      case q: True
      show ?thesis
      proof (cases "scanstring (length cs) [] 0 r")
        case (Inl err)
        with prem Cons q scanstring_msg [of "length cs" "[]" 0 r m n] show ?thesis by auto
      next
        case (Inr b)
        obtain key k where b: "b = (key, k)" by (cases b)
        show ?thesis
        proof (cases "skip_ws (drop k r)")
          case Nil
          with prem Cons q Inr b show ?thesis by auto
        next
          case c1: (Cons colon r1)
          show ?thesis
          proof (cases "colon = 58")
            case False
            with prem Cons q Inr b c1 show ?thesis by auto
          next
            case colon: True
            show ?thesis
            proof (cases "scan_once F (skip_ws r1)")
              case i: (Inl err)
              have "\<not> q \<noteq> 34" "\<not> colon \<noteq> 58" using q colon by simp_all
              from "2.IH"(1) [OF Cons this(1) Inr b [symmetric] c1 this(2)]
              have "scan_once F (skip_ws r1) = Inl (m, n) \<Longrightarrow> list_all encodable m" .
              moreover from prem Cons q Inr b c1 colon i have "err = (m, n)" by simp
              ultimately show ?thesis using i by simp
            next
              case v: (Inr bv)
              obtain v' j where bv: "bv = (v', j)" by (cases bv)
              show ?thesis
              proof (cases "skip_ws (drop j (skip_ws r1))")
                case Nil
                with prem Cons q Inr b c1 colon v bv show ?thesis by auto
              next
                case c2: (Cons d r2)
                show ?thesis
                proof (cases "d = 125")
                  case True
                  with prem Cons q Inr b c1 colon v bv c2 show ?thesis by simp
                next
                  case n125: False
                  show ?thesis
                  proof (cases "d = 44")
                    case False
                    with prem Cons q Inr b c1 colon v bv c2 n125 show ?thesis by auto
                  next
                    case True
                    have "\<not> q \<noteq> 34" "\<not> colon \<noteq> 58" "\<not> d \<noteq> 44" using q colon True by simp_all
                    from "2.IH"(2) [OF Cons this(1) Inr b [symmetric] c1 this(2) v bv [symmetric] c2 n125 this(3)]
                    have ih: "scan_object F (AList.update key v' pairs) (skip_ws r2) = Inl (m, n) \<Longrightarrow> list_all encodable m" .
                    from prem Cons q Inr b c1 colon v bv c2 n125 True
                    have "scan_object F (AList.update key v' pairs) (skip_ws r2) = Inl (m, n)"
                      by (auto split: sum.splits prod.splits)
                    with ih show ?thesis by blast
                  qed
                qed
              qed
            qed
          qed
        qed
      qed
    qed
  qed
next
  case (3 F vals cs)
  note prem = "3.prems" [unfolded scan_array.simps [of F vals cs]]
  show ?case
  proof (cases "scan_once F cs")
    case (Inl err)
    with prem "3.IH"(1) [of m n] show ?thesis by simp
  next
    case (Inr b)
    obtain v k where b: "b = (v, k)" by (cases b)
    show ?thesis
    proof (cases "skip_ws (drop k cs)")
      case Nil
      with prem Inr b show ?thesis by auto
    next
      case (Cons d r)
      show ?thesis
      proof (cases "d = 93")
        case True
        with prem Inr b Cons show ?thesis by simp
      next
        case n93: False
        show ?thesis
        proof (cases "d = 44")
          case False
          with prem Inr b Cons n93 show ?thesis by auto
        next
          case True
          have "\<not> d \<noteq> 44" using True by simp
          from "3.IH"(2) [OF Inr b [symmetric] Cons n93 this]
          have ih: "scan_array F (vals @ [v]) (skip_ws r) = Inl (m, n) \<Longrightarrow> list_all encodable m" .
          from prem Inr b Cons n93 True have "scan_array F (vals @ [v]) (skip_ws r) = Inl (m, n)"
            by (auto split: sum.splits prod.splits)
          with ih show ?thesis by blast
        qed
      qed
    qed
  qed
qed


lemma plain_simps [simp]:
  "plain (ValueError m) = list_all encodable m"
  "plain (HTTPError m) = list_all encodable m"
  "plain (RequestException m) = list_all encodable m"
  "plain (KeyError m) = list_all encodable m"
  "plain (IndexError m) = list_all encodable m"
  "plain (TypeError m) = list_all encodable m"
  "plain (AttributeError m) = list_all encodable m"
  "plain (JSONDecodeError m doc pos) = list_all encodable m"
  "plain (UnicodeEncodeError obj i j)"
  by (simp_all add: plain_def)

lemma json_loads_plain: "json_loads F s = Inl e \<Longrightarrow> plain e"
  by (auto simp: json_loads_def decode_error_def Let_def
        split: if_splits sum.splits prod.splits dest: scan_msg(1))

lemma plain_no_attribute [simp]: "plain (no_attribute v name)"
  by (simp add: no_attribute_def)

lemma plain_no_len [simp]: "plain (no_len name)"
  by (simp add: no_len_def)

lemma plain_not_subscriptable [simp]: "plain (not_subscriptable v)"
  by (simp add: not_subscriptable_def)

lemma plain_ConfigurationError [simp]: "plain ConfigurationError"
  by (simp add: ConfigurationError_def no_api_key_message_def encodable_def)

lemma plain_ValidationError [simp]: "plain ValidationError"
  by (simp add: ValidationError_def no_keywords_message_def encodable_def)

lemma subscript_plain: "subscript v i = Inl e \<Longrightarrow> plain e"
  by (cases "(v, i)" rule: subscript.cases) (auto split: option.splits if_splits)

lemma subscripts_plain: "subscripts v path = Inl e \<Longrightarrow> plain e"
  by (induction path arbitrary: v) (auto split: sum.splits dest: subscript_plain)

lemma raise_for_status_plain: "raise_for_status r = Inl e \<Longrightarrow> plain e \<and> is_HttpError e"
  by (auto simp: raise_for_status_def split: if_splits)

lemma call_ai_raises:
  assumes "call_ai W prompt st = (st', Inl e)"
  shows "(\<exists>m. e = RequestException m) \<or> plain e"
  using assms
  by (auto simp: call_ai_def Let_def requests_post_def response_json_def ConfigurationError_def [symmetric]
        simp del: subscripts.simps
        split: if_splits sum.splits prod.splits
        dest: subscripts_plain raise_for_status_plain json_loads_plain)

lemma enc_escape_char: "encodable c \<Longrightarrow> list_all encodable (escape_char c)"
  by (simp add: escape_char_def)

lemma enc_encode_basestring: "list_all encodable s \<Longrightarrow> list_all encodable (encode_basestring s)"
proof -
  assume a: "list_all encodable s"
  have "list_all encodable (concat (map escape_char s))"
    using a by (induction s) (simp_all add: enc_escape_char)
  then show ?thesis by (simp add: encode_basestring_def)
qed

lemma enc_newline_indent [simp]: "list_all encodable (newline_indent n)"
  by (simp add: newline_indent_def list_all_iff)

lemma error_document:
  "keywords_document F (error_entry e) =
     [123] @ newline_indent 1 @ encode_basestring (ascii ''keywords'') @ ascii '': ''
       @ [91] @ newline_indent 2 @ encode_basestring (error_entry_prefix @ exn_str e)
       @ newline_indent 1 @ [93] @ newline_indent 0 @ [125]"
  by (simp add: keywords_document_def error_entry_def json_dumps_def numeral_2_eq_2)

lemma enc_error_prefix [simp]: "list_all encodable error_entry_prefix"
  by (simp add: error_entry_prefix_def encodable_def)

lemma enc_error_document: "plain e \<Longrightarrow> list_all encodable (keywords_document F (error_entry e))"
  by (simp add: error_document plain_def enc_encode_basestring)

lemma write_keywords_ok:
  assumes "list_all encodable (keywords_document F kw)"
  shows "write_keywords F kw st =
           (st\<lparr>files := (files st)(OUTPUT_FILENAME CONFIG \<mapsto> utf8_bytes (keywords_document F kw))\<rparr>, Inr ())"
  using write_chunks_ok [of "iterencode F (PyDict [(ascii ''keywords'', kw)]) 0" "[]"] assms
  by (simp add: write_keywords_def keywords_document_def json_dumps_def)

lemma write_keywords_fail:
  assumes "\<not> list_all encodable (keywords_document F kw)"
  shows "\<exists>st' obj i j. write_keywords F kw st = (st', Inl (UnicodeEncodeError obj i j))"
proof -
  from write_chunks_fail [of "iterencode F (PyDict [(ascii ''keywords'', kw)]) 0" "[]"] assms
  obtain b obj i j where "write_chunks [] (iterencode F (PyDict [(ascii ''keywords'', kw)]) 0)
      = (b, Inl (UnicodeEncodeError obj i j))"
    by (auto simp: keywords_document_def json_dumps_def)
  then show ?thesis by (simp add: write_keywords_def)
qed

lemma main_handler:
  assumes "main_try W st = (st1, Inl e)" and "plain e"
  shows "main W st = (error_outcome (fops W) e st1, Inl e)"
  using assms write_keywords_ok [OF enc_error_document [OF assms(2)], of "fops W" "py_print (error_banner @ exn_str e) st1"]
  by (simp add: main_def error_outcome_def error_entry_def py_print_def)

lemma process_response_raises:
  assumes "process_response F v st = (st', Inl e)"
  shows "plain e"
proof -
  have w: "write_keywords F kw st = (s, Inl x) \<Longrightarrow> plain x" for kw s x
    using write_keywords_ok [of F kw st] write_keywords_fail [of F kw st]
    by (cases "list_all encodable (keywords_document F kw)") auto
  have s: "strip_fence v = Inl x \<Longrightarrow> plain x" for x
    by (auto simp: strip_fence_def split: pyval.splits)
  have g: "dict_get r k d = Inl x \<Longrightarrow> plain x" for r :: "'a pyval" and k d x
    by (auto simp: dict_get_def split: pyval.splits)
  have l: "py_len kw = Inl x \<Longrightarrow> plain x" for kw :: "'a pyval" and x
    by (cases kw) auto
  from assms show ?thesis
    using plain_ValidationError
    by (auto simp: process_response_def Let_def ValidationError_def
          split: sum.splits prod.splits if_splits
          dest: w s g l json_loads_plain)
qed

lemma main_try_raises:
  assumes "main_try W st = (st', Inl e)"
  shows "(\<exists>m. e = RequestException m) \<or> plain e"
  using assms
  by (auto simp: main_try_def Let_def split: sum.splits prod.splits
        dest: call_ai_raises process_response_raises)

section \<open>Evaluation on concrete responses\<close>

lemmas eval_defs = ascii_def quoted_def is_prefix_def json_fence_def py_strip_def is_space_def strip_fence_def
  json_loads_def skip_ws_def is_ws_def starts_def scan_once.simps scan_object.simps scan_array.simps
  expecting_value_def match_number_def match_int_part_def match_frac_def match_exp_def is_digit_def
  backslash_def decode_error_def dict_get_def Let_def int_of_literal_def digits_value_def

lemma openai_call:
  assumes "\<not> opt_truthy (environ W gemini_name)" and "environ W openai_name = Some k" and "k \<noteq> []"
    and "\<And>rq. http_post W rq = Inr r" and "raise_for_status r = Inr ()"
    and "json_loads (fops W) (resp_text r) = Inr j"
  shows "snd (call_ai W prompt st) = subscripts j [Key ''choices'', Idx 0, Key ''message'', Key ''content'']"
  using assms
  by (simp add: call_ai_def Let_def requests_post_def response_json_def gemini_name_def openai_name_def
        del: subscripts.simps)

lemma envelope_loads:
  "content \<in> {content_empty_object, content_not_json, content_number, content_string, content_ab} \<Longrightarrow>
   json_loads F (openai_envelope content) =
     Inr (PyDict [(ascii ''choices'', PyList [PyDict [(ascii ''message'', PyDict [(ascii ''content'', PyStr content)])]])])"
  by (auto simp: openai_envelope_def content_empty_object_def content_not_json_def content_number_def
        content_string_def content_ab_def encode_basestring_def escape_char_def eval_defs)

lemma stub_call:
  assumes "content \<in> {content_empty_object, content_not_json, content_number, content_string, content_ab}"
  shows "snd (call_ai (openai_stub 200 content) prompt st) = Inr (PyStr content)"
proof -
  let ?W = "openai_stub 200 content"
  let ?r = "\<lparr>resp_status_code = 200, resp_reason = ''stub'', resp_url = ''stub'', resp_text = openai_envelope content\<rparr>"
  have 1: "\<not> opt_truthy (environ ?W gemini_name)" "environ ?W openai_name = Some (ascii ''sk-test'')"
      "ascii ''sk-test'' \<noteq> []"
    using credential_names_distinct by (simp_all add: openai_stub_def stub_world_def ascii_def)
  have 2: "\<And>rq. http_post ?W rq = Inr ?r"
    by (simp add: openai_stub_def stub_world_def)
  have 3: "raise_for_status ?r = Inr ()"
    by (simp add: raise_for_status_def)
  have 4: "json_loads (fops ?W) (resp_text ?r) =
     Inr (PyDict [(ascii ''choices'', PyList [PyDict [(ascii ''message'', PyDict [(ascii ''content'', PyStr content)])]])])"
    using envelope_loads [OF assms] by simp
  show ?thesis
    unfolding openai_call [OF 1 2 3 4] by (simp add: ascii_def)
qed

section \<open>The steps of a run\<close>

lemma concat_scalar_or_chunks:
  "concat (case scalar_text F v of Some t \<Rightarrow> [t] | None \<Rightarrow> iterencode F v level) = dumps_at F v level"
  by (cases v) (simp_all add: dumps_at_def)

lemma concat_buf_scalar_or_chunks:
  "concat (case scalar_text F v of Some t \<Rightarrow> [buf @ t] | None \<Rightarrow> buf # iterencode F v level)
     = buf @ dumps_at F v level"
  by (cases v) (simp_all add: dumps_at_def)

lemma document_layout:
  "keywords_document F kw =
     [123] @ newline_indent 1 @ encode_basestring (ascii ''keywords'') @ ascii '': ''
       @ dumps_at F kw 1 @ newline_indent 0 @ [125]"
  by (cases kw) (simp_all add: keywords_document_def json_dumps_def dumps_at_def)

lemma enc_document: "list_all encodable (keywords_document F kw) = list_all encodable (dumps_at F kw 1)"
  by (simp add: document_layout enc_encode_basestring)

lemma main_try_after_call:
  "call_ai W (build_prompt (today W)) (py_print request_line st) = (st2, Inr v) \<Longrightarrow>
   main_try W st = process_response (fops W) v st2"
  by (simp add: main_try_def)

lemma main_try_call_raises:
  "call_ai W (build_prompt (today W)) (py_print request_line st) = (st2, Inl e) \<Longrightarrow>
   main_try W st = (st2, Inl e)"
  by (simp add: main_try_def)

lemma process_response_parse_error:
  "strip_fence v = Inr text \<Longrightarrow> json_loads F text = Inl e \<Longrightarrow> process_response F v st = (st, Inl e)"
  by (simp add: process_response_def)

lemma process_response_falsy:
  "strip_fence v = Inr text \<Longrightarrow> json_loads F text = Inr result \<Longrightarrow>
   dict_get result (ascii ''keywords'') (PyList []) = Inr kw \<Longrightarrow> \<not> truthy F kw \<Longrightarrow>
   process_response F v st = (st, Inl ValidationError)"
  by (simp add: process_response_def ValidationError_def)

lemma process_response_written:
  assumes "strip_fence v = Inr text" and "json_loads F text = Inr result"
    and "dict_get result (ascii ''keywords'') (PyList []) = Inr kw" and "truthy F kw"
    and "list_all encodable (keywords_document F kw)"
  shows "process_response F v st =
           (case py_len kw of
              Inl e \<Rightarrow> (written F kw st, Inl e)
            | Inr n \<Rightarrow> (py_print (success_line n) (written F kw st), Inr ()))"
  using assms write_keywords_ok [OF assms(5), of st]
  by (simp add: process_response_def written_def success_line_def split: sum.splits)

lemma process_response_unencodable:
  assumes "strip_fence v = Inr text" and "json_loads F text = Inr result"
    and "dict_get result (ascii ''keywords'') (PyList []) = Inr kw" and "truthy F kw"
    and "\<not> list_all encodable (keywords_document F kw)"
  shows "\<exists>st' obj i j. process_response F v st = (st', Inl (UnicodeEncodeError obj i j))"
  using assms write_keywords_fail [OF assms(5), of st]
  by (auto simp: process_response_def)

lemma openai_call_status:
  assumes "\<not> opt_truthy (environ W gemini_name)" and "environ W openai_name = Some k" and "k \<noteq> []"
    and "\<And>rq. http_post W rq = Inr r" and "raise_for_status r = Inl e"
  shows "snd (call_ai W prompt st) = Inl e"
  using assms
  by (simp add: call_ai_def Let_def requests_post_def gemini_name_def openai_name_def)

lemma stub_call_status:
  "snd (call_ai (openai_stub 503 content) prompt st)
     = Inl (HTTPError (str_nat 503 @ ascii '' Server Error: '' @ ascii ''stub'' @ ascii '' for url: '' @ ascii ''stub''))"
proof -
  let ?W = "openai_stub 503 content"
  let ?r = "\<lparr>resp_status_code = 503, resp_reason = ''stub'', resp_url = ''stub'', resp_text = openai_envelope content\<rparr>"
  have 1: "\<not> opt_truthy (environ ?W gemini_name)" "environ ?W openai_name = Some (ascii ''sk-test'')"
      "ascii ''sk-test'' \<noteq> []"
    using credential_names_distinct by (simp_all add: openai_stub_def stub_world_def ascii_def)
  have 2: "\<And>rq. http_post ?W rq = Inr ?r"
    by (simp add: openai_stub_def stub_world_def)
  have 3: "raise_for_status ?r
     = Inl (HTTPError (str_nat 503 @ ascii '' Server Error: '' @ ascii ''stub'' @ ascii '' for url: '' @ ascii ''stub''))"
    by (simp add: raise_for_status_def)
  show ?thesis
    by (rule openai_call_status [OF 1 2 3])
qed

lemma pair_snd: "snd p = y \<Longrightarrow> p = (fst p, y)"
  by (cases p) simp

lemma main_try_stub:
  assumes "content \<in> {content_empty_object, content_not_json, content_number, content_string, content_ab}"
  shows "main_try (openai_stub 200 content) st
           = process_response no_floats (PyStr content)
               (fst (call_ai (openai_stub 200 content) (build_prompt (today (openai_stub 200 content)))
                       (py_print request_line st)))"
proof -
  have "fops (openai_stub 200 content) = no_floats"
    by (simp add: openai_stub_def stub_world_def)
  with main_try_after_call [OF pair_snd [OF stub_call [OF assms]], of st] show ?thesis
    by simp
qed

lemma strip_content:
  "content \<in> {content_empty_object, content_not_json, content_number, content_string, content_ab} \<Longrightarrow>
   strip_fence (PyStr content) = Inr content"
  by (auto simp: content_empty_object_def content_not_json_def content_number_def
        content_string_def content_ab_def eval_defs)

lemma loads_contents:
  "json_loads F content_empty_object = Inr (PyDict [])"
  "json_loads F content_not_json = Inl (JSONDecodeError expecting_value content_not_json 0)"
  "json_loads F content_number = Inr (PyDict [(ascii ''keywords'', PyInt 5)])"
  "json_loads F content_string = Inr (PyDict [(ascii ''keywords'', PyStr (ascii ''abc''))])"
  "json_loads F content_ab = Inr (PyDict [(ascii ''keywords'', PyList [PyStr (ascii ''a''), PyStr (ascii ''b'')])])"
  by (simp_all add: content_empty_object_def content_not_json_def content_number_def
        content_string_def content_ab_def eval_defs)


section \<open>Provider selection\<close>

lemma call_ai_gemini:
  assumes "environ W gemini_name = Some g" and "g \<noteq> []"
  shows "\<exists>rq. posted (fst (call_ai W prompt st)) = posted st @ [rq] \<and> req_url rq = gemini_endpoint @ g"
  using assms
  by (auto simp: call_ai_def Let_def requests_post_def py_print_def opt_truthy_def format_opt_def
        gemini_name_def split: sum.splits prod.splits)

lemma call_ai_openai:
  assumes "\<not> opt_truthy (environ W gemini_name)" and "environ W openai_name = Some k" and "k \<noteq> []"
  shows "\<exists>rq. posted (fst (call_ai W prompt st)) = posted st @ [rq] \<and> req_url rq = openai_endpoint"
  using assms
  by (auto simp: call_ai_def Let_def requests_post_def py_print_def opt_truthy_def format_opt_def
        gemini_name_def openai_name_def split: sum.splits prod.splits)

lemma call_ai_no_key:
  assumes "\<not> opt_truthy (environ W gemini_name)" and "\<not> opt_truthy (environ W openai_name)"
  shows "call_ai W prompt st = (st, Inl ConfigurationError)"
  using assms by (simp add: call_ai_def gemini_name_def openai_name_def ConfigurationError_def)

lemma call_ai_env_only:
  assumes "http_post W' = http_post W" and "fops W' = fops W"
    and "opt_truthy (environ W' gemini_name) = opt_truthy (environ W gemini_name)"
    and "opt_truthy (environ W gemini_name) \<longrightarrow> environ W' gemini_name = environ W gemini_name"
    and "opt_truthy (environ W' openai_name) = opt_truthy (environ W openai_name)"
    and "opt_truthy (environ W openai_name) \<longrightarrow> environ W' openai_name = environ W openai_name"
  shows "call_ai W' prompt st = call_ai W prompt st"
proof (cases "opt_truthy (environ W gemini_name)")
  case True
  with assms show ?thesis
    unfolding call_ai_def requests_post_def gemini_name_def openai_name_def
    by (simp add: Let_def cong: sum.case_cong)
next
  case g: False
  show ?thesis
  proof (cases "opt_truthy (environ W openai_name)")
    case True
    with g assms show ?thesis
      unfolding call_ai_def requests_post_def gemini_name_def openai_name_def
      by (simp add: Let_def cong: sum.case_cong)
  next
    case False
    with g assms show ?thesis
      unfolding call_ai_def requests_post_def gemini_name_def openai_name_def
      by (simp add: Let_def cong: sum.case_cong)
  qed
qed

text \<open>
  C1 (as amended).  At most one request is handed to the HTTP layer.  If the Gemini
  variable is set to a non-empty value, the one request goes to the Gemini endpoint,
  whatever the OpenAI variable is; if the Gemini variable is unset or empty and the
  OpenAI variable is set to a non-empty value, the one request goes to the OpenAI
  endpoint; if neither variable has a non-empty value, no request is made.
\<close>

theorem call_ai_provider_priority:
  "(\<forall>g. environ W gemini_name = Some g \<and> g \<noteq> [] \<longrightarrow>
      (\<exists>rq. posted (fst (call_ai W prompt st)) = posted st @ [rq] \<and> req_url rq = gemini_endpoint @ g))
   \<and> (\<forall>k. \<not> opt_truthy (environ W gemini_name) \<and> environ W openai_name = Some k \<and> k \<noteq> [] \<longrightarrow>
      (\<exists>rq. posted (fst (call_ai W prompt st)) = posted st @ [rq] \<and> req_url rq = openai_endpoint))
   \<and> (\<not> opt_truthy (environ W gemini_name) \<and> \<not> opt_truthy (environ W openai_name) \<longrightarrow>
      posted (fst (call_ai W prompt st)) = posted st)
   \<and> length (posted (fst (call_ai W prompt st))) \<le> length (posted st) + 1"
proof (intro conjI allI impI)
  fix g assume "environ W gemini_name = Some g \<and> g \<noteq> []"
  then show "\<exists>rq. posted (fst (call_ai W prompt st)) = posted st @ [rq] \<and> req_url rq = gemini_endpoint @ g"
    using call_ai_gemini by blast
next
  fix k assume "\<not> opt_truthy (environ W gemini_name) \<and> environ W openai_name = Some k \<and> k \<noteq> []"
  then show "\<exists>rq. posted (fst (call_ai W prompt st)) = posted st @ [rq] \<and> req_url rq = openai_endpoint"
    using call_ai_openai by blast
next
  assume "\<not> opt_truthy (environ W gemini_name) \<and> \<not> opt_truthy (environ W openai_name)"
  then show "posted (fst (call_ai W prompt st)) = posted st"
    by (simp add: call_ai_no_key)
next
  show "length (posted (fst (call_ai W prompt st))) \<le> length (posted st) + 1"
    by (auto simp: call_ai_def Let_def requests_post_def py_print_def split: sum.splits prod.splits)
qed

theorem call_ai_provider_priority_witness:
  "(\<exists>rq. posted (fst (call_ai (stub_world [gemini_name \<mapsto> [103], openai_name \<mapsto> [107]] 200 []) [] initial_state)) = [rq]
         \<and> req_url rq = gemini_endpoint @ [103])
   \<and> (\<exists>rq. posted (fst (call_ai (stub_world [openai_name \<mapsto> [107]] 200 []) [] initial_state)) = [rq]
         \<and> req_url rq = openai_endpoint)
   \<and> posted (fst (call_ai (stub_world (\<lambda>name. None) 200 []) [] initial_state)) = []"
proof -
  let ?W1 = "stub_world [gemini_name \<mapsto> [103], openai_name \<mapsto> [107]] 200 []"
  let ?W2 = "stub_world [openai_name \<mapsto> [107]] 200 []"
  let ?W3 = "stub_world (\<lambda>name. None) 200 []"
  have e1: "environ ?W1 gemini_name = Some [103] \<and> [103] \<noteq> ([] :: pystr)"
    using credential_names_distinct by (simp add: stub_world_def)
  have e2: "\<not> opt_truthy (environ ?W2 gemini_name) \<and> environ ?W2 openai_name = Some [107] \<and> [107] \<noteq> ([] :: pystr)"
    using credential_names_distinct by (simp add: stub_world_def)
  have e3: "\<not> opt_truthy (environ ?W3 gemini_name) \<and> \<not> opt_truthy (environ ?W3 openai_name)"
    by (simp add: stub_world_def)
  have p: "posted initial_state = []"
    by (simp add: initial_state_def)
  show ?thesis
    using call_ai_provider_priority [of ?W1 "[]" initial_state] e1
      call_ai_provider_priority [of ?W2 "[]" initial_state] e2
      call_ai_provider_priority [of ?W3 "[]" initial_state] e3
    unfolding p by (metis append_Nil)
qed

text \<open>
  C1 as stated fails: with the Gemini variable set (to the empty string) and the OpenAI
  variable set to \<open>k\<close>, the request goes to the OpenAI endpoint, not to the Gemini one.
\<close>

theorem call_ai_gemini_set_but_empty:
  "environ (stub_world [gemini_name \<mapsto> [], openai_name \<mapsto> [107]] 200 []) gemini_name \<noteq> None
   \<and> (\<exists>rq. posted (fst (call_ai (stub_world [gemini_name \<mapsto> [], openai_name \<mapsto> [107]] 200 []) [] initial_state)) = [rq]
         \<and> req_url rq = openai_endpoint)
   \<and> openai_endpoint \<noteq> gemini_endpoint @ []"
proof -
  let ?W = "stub_world [gemini_name \<mapsto> [], openai_name \<mapsto> [107]] 200 []"
  have e: "environ ?W gemini_name = Some []" "environ ?W openai_name = Some [107]"
    using credential_names_distinct by (simp_all add: stub_world_def)
  have "\<exists>rq. posted (fst (call_ai ?W [] initial_state)) = posted initial_state @ [rq] \<and> req_url rq = openai_endpoint"
    by (rule call_ai_openai [of ?W "[107]"]) (simp_all add: e)
  moreover have "posted initial_state = []"
    by (simp add: initial_state_def)
  moreover have "openai_endpoint \<noteq> gemini_endpoint @ []"
    by (simp add: openai_endpoint_def gemini_endpoint_def ascii_def)
  ultimately show ?thesis
    using e by simp
qed

text \<open>
  C2.  When neither credential variable is set, \<open>call_ai\<close> raises the configuration error
  and leaves the state as it was: no request has been handed to the HTTP layer.
\<close>

theorem call_ai_no_credentials:
  assumes "environ W gemini_name = None" and "environ W openai_name = None"
  shows "call_ai W prompt st = (st, Inl ConfigurationError)
         \<and> posted (fst (call_ai W prompt st)) = posted st"
  using assms by (simp add: call_ai_no_key)

theorem call_ai_no_credentials_witness:
  "environ (stub_world (\<lambda>name. None) 200 []) gemini_name = None
   \<and> environ (stub_world (\<lambda>name. None) 200 []) openai_name = None
   \<and> call_ai (stub_world (\<lambda>name. None) 200 []) [] initial_state = (initial_state, Inl ConfigurationError)"
proof -
  have h: "environ (stub_world (\<lambda>name. None) 200 []) gemini_name = None"
      "environ (stub_world (\<lambda>name. None) 200 []) openai_name = None"
    by (simp_all add: stub_world_def)
  show ?thesis
    using call_ai_no_credentials [OF h, of "[]" initial_state] h by simp
qed

text \<open>
  C8.  A credential variable set to the empty string is treated like an absent one:
  removing it from the environment does not change what \<open>call_ai\<close> does.  With the Gemini
  variable empty and the OpenAI variable non-empty the request goes to the OpenAI
  endpoint; with both empty \<open>call_ai\<close> raises the configuration error.
\<close>

theorem call_ai_empty_credential:
  "(environ W gemini_name = Some [] \<longrightarrow>
      call_ai W prompt st = call_ai (W\<lparr>environ := (environ W)(gemini_name := None)\<rparr>) prompt st)
   \<and> (environ W openai_name = Some [] \<longrightarrow>
      call_ai W prompt st = call_ai (W\<lparr>environ := (environ W)(openai_name := None)\<rparr>) prompt st)
   \<and> (\<forall>k. environ W gemini_name = Some [] \<and> environ W openai_name = Some k \<and> k \<noteq> [] \<longrightarrow>
      (\<exists>rq. posted (fst (call_ai W prompt st)) = posted st @ [rq] \<and> req_url rq = openai_endpoint))
   \<and> (environ W gemini_name = Some [] \<and> environ W openai_name = Some [] \<longrightarrow>
      call_ai W prompt st = (st, Inl ConfigurationError))"
proof (intro conjI allI impI)
  assume "environ W gemini_name = Some []"
  then show "call_ai W prompt st = call_ai (W\<lparr>environ := (environ W)(gemini_name := None)\<rparr>) prompt st"
    using credential_names_distinct
    by (intro call_ai_env_only [symmetric]) auto
next
  assume "environ W openai_name = Some []"
  then show "call_ai W prompt st = call_ai (W\<lparr>environ := (environ W)(openai_name := None)\<rparr>) prompt st"
    using credential_names_distinct
    by (intro call_ai_env_only [symmetric]) auto
next
  fix k assume "environ W gemini_name = Some [] \<and> environ W openai_name = Some k \<and> k \<noteq> []"
  then show "\<exists>rq. posted (fst (call_ai W prompt st)) = posted st @ [rq] \<and> req_url rq = openai_endpoint"
    using call_ai_openai [of W k] by simp
next
  assume "environ W gemini_name = Some [] \<and> environ W openai_name = Some []"
  then show "call_ai W prompt st = (st, Inl ConfigurationError)"
    by (simp add: call_ai_no_key)
qed

theorem call_ai_empty_credential_witness:
  "(\<exists>rq. posted (fst (call_ai (stub_world [gemini_name \<mapsto> [], openai_name \<mapsto> [115, 107]] 200 []) [] initial_state)) = [rq]
         \<and> req_url rq = openai_endpoint)
   \<and> call_ai (stub_world [gemini_name \<mapsto> [], openai_name \<mapsto> []] 200 []) [] initial_state
        = (initial_state, Inl ConfigurationError)
   \<and> call_ai (stub_world [gemini_name \<mapsto> [], openai_name \<mapsto> []] 200 []) [] initial_state
        = call_ai (stub_world (\<lambda>name. None) 200 []) [] initial_state"
proof -
  let ?W1 = "stub_world [gemini_name \<mapsto> [], openai_name \<mapsto> [115, 107]] 200 []"
  let ?W2 = "stub_world [gemini_name \<mapsto> [], openai_name \<mapsto> []] 200 []"
  let ?W3 = "stub_world (\<lambda>name. None) 200 []"
  have e1: "environ ?W1 gemini_name = Some [] \<and> environ ?W1 openai_name = Some [115, 107] \<and> [115, 107] \<noteq> ([] :: pystr)"
    using credential_names_distinct by (simp add: stub_world_def)
  have e2: "environ ?W2 gemini_name = Some [] \<and> environ ?W2 openai_name = Some []"
    using credential_names_distinct by (simp add: stub_world_def)
  have e3: "\<not> opt_truthy (environ ?W3 gemini_name) \<and> \<not> opt_truthy (environ ?W3 openai_name)"
    by (simp add: stub_world_def)
  have p: "posted initial_state = []"
    by (simp add: initial_state_def)
  have a: "\<exists>rq. posted (fst (call_ai ?W1 [] initial_state)) = [rq] \<and> req_url rq = openai_endpoint"
    using call_ai_empty_credential [of ?W1 "[]" initial_state] e1 unfolding p by (metis append_Nil)
  have b: "call_ai ?W2 [] initial_state = (initial_state, Inl ConfigurationError)"
    using call_ai_empty_credential [of ?W2 "[]" initial_state] e2 by blast
  have c: "call_ai ?W3 [] initial_state = (initial_state, Inl ConfigurationError)"
    using call_ai_no_key [of ?W3 "[]" initial_state] e3 by simp
  show ?thesis
    using a b c by simp
qed

section \<open>Error handling\<close>

text \<open>
  C5.  Whatever the kind of the error the \<open>try\<close> block raises (configuration, HTTP,
  parse or validation error), \<open>main\<close> prints it, writes the output file with a
  \<open>keywords\<close> array of exactly one string, the error prefix followed by \<open>str(e)\<close>, and
  raises the same error again.
\<close>

theorem main_reports_error:
  assumes "main_try W st = (st1, Inl e)"
    and "e = ConfigurationError \<or> is_HttpError e \<or> is_ParseError e \<or> e = ValidationError"
  shows "main W st = (error_outcome (fops W) e st1, Inl e)
         \<and> files (error_outcome (fops W) e st1) (OUTPUT_FILENAME CONFIG)
             = Some (utf8_bytes (keywords_document (fops W) (PyList [PyStr (error_entry_prefix @ exn_str e)])))"
proof -
  from assms(2) have "\<forall>m. e \<noteq> RequestException m"
    by (auto simp: ConfigurationError_def ValidationError_def)
  with main_try_raises [OF assms(1)] have "plain e"
    by blast
  from main_handler [OF assms(1) this] show ?thesis
    by (simp add: error_outcome_def error_entry_def)
qed

lemma main_try_no_key:
  "main_try (stub_world (\<lambda>name. None) 200 []) st = (py_print request_line st, Inl ConfigurationError)"
  using call_ai_no_key [of "stub_world (\<lambda>name. None) 200 []"]
  by (simp add: main_try_def stub_world_def)

lemma main_try_status:
  "snd (main_try (openai_stub 503 content) st)
     = Inl (HTTPError (str_nat 503 @ ascii '' Server Error: '' @ ascii ''stub'' @ ascii '' for url: '' @ ascii ''stub''))"
  using main_try_call_raises [OF pair_snd [OF stub_call_status], of content st]
  by simp

lemma main_try_not_json:
  "snd (main_try (openai_stub 200 content_not_json) st)
     = Inl (JSONDecodeError expecting_value content_not_json 0)"
  by (simp add: main_try_stub process_response_parse_error [OF strip_content loads_contents(2)])

lemma main_try_empty_object:
  "snd (main_try (openai_stub 200 content_empty_object) st) = Inl ValidationError"
proof -
  have "dict_get (PyDict []) (ascii ''keywords'') (PyList []) = Inr (PyList [] :: unit pyval)"
    by (simp add: dict_get_def)
  from process_response_falsy [OF strip_content loads_contents(1) this]
  show ?thesis by (simp add: main_try_stub)
qed

theorem main_reports_error_witness:
  "main (stub_world (\<lambda>name. None) 200 []) initial_state
     = (error_outcome no_floats ConfigurationError (py_print request_line initial_state), Inl ConfigurationError)
   \<and> snd (main (openai_stub 503 []) initial_state)
     = Inl (HTTPError (str_nat 503 @ ascii '' Server Error: '' @ ascii ''stub'' @ ascii '' for url: '' @ ascii ''stub''))
   \<and> snd (main (openai_stub 200 content_not_json) initial_state)
     = Inl (JSONDecodeError expecting_value content_not_json 0)
   \<and> snd (main (openai_stub 200 content_empty_object) initial_state) = Inl ValidationError
   \<and> files (fst (main (openai_stub 200 content_empty_object) initial_state)) (OUTPUT_FILENAME CONFIG)
     = Some (utf8_bytes (keywords_document no_floats
               (PyList [PyStr (error_entry_prefix @ exn_str ValidationError)])))"
proof -
  have f: "fops (stub_world env status body) = no_floats" for env status body
    by (simp add: stub_world_def)
  have g: "fops (openai_stub status content) = no_floats" for status content
    by (simp add: openai_stub_def stub_world_def)
  have a: "main (stub_world (\<lambda>name. None) 200 []) initial_state
     = (error_outcome no_floats ConfigurationError (py_print request_line initial_state), Inl ConfigurationError)"
    using main_reports_error [OF main_try_no_key, of initial_state] by (simp add: f)
  have b: "snd (main (openai_stub 503 []) initial_state)
     = Inl (HTTPError (str_nat 503 @ ascii '' Server Error: '' @ ascii ''stub'' @ ascii '' for url: '' @ ascii ''stub''))"
    using main_reports_error [OF pair_snd [OF main_try_status], of "[]" initial_state] by simp
  have c: "snd (main (openai_stub 200 content_not_json) initial_state)
     = Inl (JSONDecodeError expecting_value content_not_json 0)"
    using main_reports_error [OF pair_snd [OF main_try_not_json], of initial_state] by simp
  have d: "snd (main (openai_stub 200 content_empty_object) initial_state) = Inl ValidationError
     \<and> files (fst (main (openai_stub 200 content_empty_object) initial_state)) (OUTPUT_FILENAME CONFIG)
     = Some (utf8_bytes (keywords_document no_floats
               (PyList [PyStr (error_entry_prefix @ exn_str ValidationError)])))"
    using main_reports_error [OF pair_snd [OF main_try_empty_object], of initial_state] by (simp add: g)
  from a b c d show ?thesis by blast
qed

text \<open>
  C4.  When the response text parses as a JSON object in which the \<open>keywords\<close> field is
  absent, \<open>get\<close> returns the default, the empty list; and when the keywords are the empty
  list (absent or given so), the \<open>try\<close> block raises the validation error before anything
  is written, so that the run ends with that error and the error entry in the file, never
  with a successful empty list.
\<close>

theorem missing_keywords_fail:
  assumes "call_ai W (build_prompt (today W)) (py_print request_line st) = (st2, Inr v)"
    and "strip_fence v = Inr text"
    and "json_loads (fops W) text = Inr (PyDict d)"
    and "map_of d (ascii ''keywords'') = None \<or> map_of d (ascii ''keywords'') = Some (PyList [])"
  shows "dict_get (PyDict d) (ascii ''keywords'') (PyList []) = Inr (PyList [])
         \<and> main_try W st = (st2, Inl ValidationError)
         \<and> main W st = (error_outcome (fops W) ValidationError st2, Inl ValidationError)"
proof -
  from assms(4) have g: "dict_get (PyDict d) (ascii ''keywords'') (PyList []) = Inr (PyList [])"
    by (auto simp: dict_get_def)
  have "\<not> truthy (fops W) (PyList [])"
    by simp
  from process_response_falsy [OF assms(2) assms(3) g this]
  have t: "main_try W st = (st2, Inl ValidationError)"
    by (simp add: main_try_after_call [OF assms(1)])
  from main_handler [OF t] g t show ?thesis
    by simp
qed

theorem missing_keywords_fail_witness:
  "json_loads no_floats content_empty_object = Inr (PyDict [])
   \<and> map_of ([] :: (pystr \<times> unit pyval) list) (ascii ''keywords'') = None
   \<and> snd (main (openai_stub 200 content_empty_object) initial_state) = Inl ValidationError"
proof -
  let ?W = "openai_stub 200 content_empty_object"
  have g: "fops ?W = no_floats"
    by (simp add: openai_stub_def stub_world_def)
  have c: "call_ai ?W (build_prompt (today ?W)) (py_print request_line initial_state)
             = (fst (call_ai ?W (build_prompt (today ?W)) (py_print request_line initial_state)),
                Inr (PyStr content_empty_object))"
    by (rule pair_snd) (simp add: stub_call)
  have s: "strip_fence (PyStr content_empty_object :: unit pyval) = Inr content_empty_object"
    by (simp add: strip_content)
  have l: "json_loads (fops ?W) content_empty_object = Inr (PyDict [])"
    by (simp add: loads_contents)
  have m: "map_of ([] :: (pystr \<times> unit pyval) list) (ascii ''keywords'') = None
           \<or> map_of ([] :: (pystr \<times> unit pyval) list) (ascii ''keywords'') = Some (PyList [])"
    by simp
  from missing_keywords_fail [OF c s l m] l g show ?thesis
    by simp
qed

lemma scan_once_no_value:
  assumes "is_space d \<or> d = 96"
  shows "scan_once F (d # rest) = Inl (expecting_value, Suc (length rest))"
proof -
  from assms have d: "d \<noteq> 34" "d \<noteq> 123" "d \<noteq> 91" "d \<noteq> 110" "d \<noteq> 116" "d \<noteq> 102"
      "d \<noteq> 78" "d \<noteq> 73" "d \<noteq> 45" "d \<noteq> 48" "\<not> (49 \<le> d \<and> d \<le> 57)"
    by (auto simp: is_space_def)
  then have "match_number (d # rest) = None"
    by (auto simp: match_number_def match_int_part_def)
  with d show ?thesis
    by (simp add: scan_once.simps is_prefix_def ascii_def)
qed

lemma py_strip_head:
  assumes "starts c (py_strip s)"
  shows "\<exists>ws r. s = ws @ c # r \<and> (\<forall>x\<in>set ws. is_space x) \<and> \<not> is_space c"
proof (cases "dropWhile is_space s")
  case Nil
  with assms show ?thesis by (simp add: py_strip_def starts_def)
next
  case (Cons x xs)
  then have nx: "\<not> is_space x"
    by (metis hd_dropWhile list.sel(1) list.distinct(1))
  have "\<exists>zs. dropWhile is_space (rev xs @ [x]) = zs @ [x]"
    using nx by (simp add: dropWhile_append)
  then obtain zs where "dropWhile is_space (rev xs @ [x]) = zs @ [x]" ..
  with Cons have "py_strip s = x # rev zs"
    by (simp add: py_strip_def)
  with assms have "c = x" by (simp add: starts_def)
  moreover have "s = takeWhile is_space s @ x # xs"
    using Cons by (metis takeWhile_dropWhile_id)
  moreover have "\<forall>y\<in>set (takeWhile is_space s). is_space y"
    by (auto dest: set_takeWhileD)
  ultimately show ?thesis using nx by blast
qed

lemma loads_after_spaces:
  assumes "\<forall>x\<in>set ws. is_space x"
  shows "\<exists>pos. json_loads F (ws @ 96 # r) = Inl (JSONDecodeError expecting_value (ws @ 96 # r) pos)"
proof -
  let ?s = "ws @ 96 # r"
  have space_not_bom: "\<not> is_space 0xFEFF" by (simp add: is_space_def)
  have nb: "\<not> is_prefix [0xFEFF] ?s"
  proof (cases ws)
    case Nil
    then show ?thesis by (simp add: is_prefix_def)
  next
    case (Cons w ws')
    with assms have "is_space w" by simp
    with space_not_bom have "w \<noteq> 0xFEFF" by auto
    with Cons show ?thesis by (simp add: is_prefix_def)
  qed
  have "\<not> is_ws 96" by (simp add: is_ws_def)
  then have "\<exists>d rest. skip_ws ?s = d # rest \<and> (is_space d \<or> d = 96)"
  proof (cases "\<forall>x\<in>set ws. is_ws x")
    case True
    with \<open>\<not> is_ws 96\<close> have "skip_ws ?s = 96 # r"
      by (simp add: skip_ws_def dropWhile_append)
    then show ?thesis by blast
  next
    case False
    then obtain x where "x \<in> set ws" "\<not> is_ws x" by blast
    then have "skip_ws ?s = dropWhile is_ws ws @ 96 # r"
      by (simp add: skip_ws_def dropWhile_append1)
    moreover from False have "dropWhile is_ws ws \<noteq> []" by simp
    then obtain d ds where d: "dropWhile is_ws ws = d # ds" by (cases "dropWhile is_ws ws") auto
    moreover have "d \<in> set ws"
      using d by (metis list.set_intros(1) set_dropWhileD)
    ultimately show ?thesis using assms by auto
  qed
  then obtain d rest where sk: "skip_ws ?s = d # rest" and dd: "is_space d \<or> d = 96" by blast
  from scan_once_no_value [OF dd, of F rest] sk nb show ?thesis
    by (simp add: json_loads_def decode_error_def)
qed

section \<open>Fence stripping\<close>

text \<open>
  C9.  When the stripped text does not start with the seven characters of the JSON fence
  marker, the text goes to the parser as it is.  A text that then starts with a backquote,
  as one in a plain fence does, is refused by \<open>json.loads\<close> (\<open>Expecting value\<close>), and the
  \<open>try\<close> block raises that parse error without touching the state.
\<close>

theorem other_fence_not_stripped:
  fixes F :: "'f float_ops"
  shows "(\<not> is_prefix json_fence (py_strip s) \<longrightarrow> strip_fence (PyStr s :: 'f pyval) = Inr s)
   \<and> (\<not> is_prefix json_fence (py_strip s) \<and> starts 96 (py_strip s) \<longrightarrow>
        (\<exists>pos. process_response F (PyStr s) st = (st, Inl (JSONDecodeError expecting_value s pos))
               \<and> is_ParseError (JSONDecodeError expecting_value s pos)))"
proof (intro conjI impI)
  assume "\<not> is_prefix json_fence (py_strip s)"
  then show "strip_fence (PyStr s :: 'f pyval) = Inr s"
    by (simp add: strip_fence_def)
next
  assume a: "\<not> is_prefix json_fence (py_strip s) \<and> starts 96 (py_strip s)"
  then have sf: "strip_fence (PyStr s :: 'f pyval) = Inr s"
    by (simp add: strip_fence_def)
  from a py_strip_head [of 96 s] obtain ws r where s: "s = ws @ 96 # r" and ws: "\<forall>x\<in>set ws. is_space x"
    by blast
  from loads_after_spaces [OF ws, of F r] s obtain pos
    where "json_loads F s = Inl (JSONDecodeError expecting_value s pos)" by auto
  from process_response_parse_error [OF sf this]
  show "\<exists>pos. process_response F (PyStr s) st = (st, Inl (JSONDecodeError expecting_value s pos))
               \<and> is_ParseError (JSONDecodeError expecting_value s pos)"
    by auto
qed

theorem other_fence_not_stripped_witness:
  "\<not> is_prefix json_fence (py_strip plain_fence_example)
   \<and> starts 96 (py_strip plain_fence_example)
   \<and> strip_fence (PyStr plain_fence_example :: unit pyval) = Inr plain_fence_example
   \<and> (\<exists>pos. process_response no_floats (PyStr plain_fence_example) initial_state
               = (initial_state, Inl (JSONDecodeError expecting_value plain_fence_example pos)))"
proof -
  have h: "\<not> is_prefix json_fence (py_strip plain_fence_example)" "starts 96 (py_strip plain_fence_example)"
    by (simp_all add: plain_fence_example_def eval_defs)
  from other_fence_not_stripped [of plain_fence_example no_floats initial_state] h
  show ?thesis by auto
qed

lemma main_success:
  "main_try W st = (st1, Inr u) \<Longrightarrow> main W st = (st1, Inr u)"
  by (simp add: main_def)

lemma enc_str_int [simp]: "list_all encodable (str_int i)"
  by (simp add: str_int_def)

lemma loads_keywords_x:
  "json_loads F keywords_x = Inr (PyDict [(ascii ''keywords'', PyList [PyStr (ascii ''x'')])])"
  by (simp add: keywords_x_def eval_defs)

lemma strip_fenced_example: "strip_fence (PyStr fenced_example) = Inr keywords_x"
  by (simp add: fenced_example_def keywords_x_def eval_defs)

lemma enc_document_x: "list_all encodable (keywords_document F (PyList [PyStr (ascii ''x'')]))"
  by (simp add: enc_document dumps_at_def enc_encode_basestring)

text \<open>
  C3 (as amended).  When the stripped text starts with the fence marker, the text that is
  parsed is the stripped text without its first seven and its last three characters,
  stripped of white space once more.  The fenced example of the specification becomes the
  JSON text of the object, parses, and the run writes the one keyword \<open>x\<close>.
\<close>

theorem fence_strip:
  fixes F :: "'f float_ops"
  shows "(is_prefix json_fence (py_strip s) \<longrightarrow>
            strip_fence (PyStr s :: 'f pyval)
              = Inr (py_strip (drop 7 (take (length (py_strip s) - 3) (py_strip s)))))
         \<and> strip_fence (PyStr fenced_example :: 'f pyval) = Inr keywords_x
         \<and> json_loads F keywords_x = Inr (PyDict [(ascii ''keywords'', PyList [PyStr (ascii ''x'')])])
         \<and> process_response F (PyStr fenced_example) st
             = (py_print (success_line 1) (written F (PyList [PyStr (ascii ''x'')]) st), Inr ())"
proof (intro conjI impI)
  assume "is_prefix json_fence (py_strip s)"
  then show "strip_fence (PyStr s :: 'f pyval)
      = Inr (py_strip (drop 7 (take (length (py_strip s) - 3) (py_strip s))))"
    by (simp add: strip_fence_def)
next
  show "strip_fence (PyStr fenced_example :: 'f pyval) = Inr keywords_x"
    by (rule strip_fenced_example)
next
  show "json_loads F keywords_x = Inr (PyDict [(ascii ''keywords'', PyList [PyStr (ascii ''x'')])])"
    by (rule loads_keywords_x)
next
  have g: "dict_get (PyDict [(ascii ''keywords'', PyList [PyStr (ascii ''x'')])] :: 'f pyval)
             (ascii ''keywords'') (PyList []) = Inr (PyList [PyStr (ascii ''x'')])"
    by (simp add: dict_get_def)
  have t: "truthy F (PyList [PyStr (ascii ''x'')])"
    by simp
  from process_response_written [OF strip_fenced_example loads_keywords_x g t enc_document_x, of st]
  show "process_response F (PyStr fenced_example) st
      = (py_print (success_line 1) (written F (PyList [PyStr (ascii ''x'')]) st), Inr ())"
    by simp
qed

theorem fence_strip_witness:
  "is_prefix json_fence (py_strip fenced_example)
   \<and> strip_fence (PyStr fenced_example :: unit pyval)
       = Inr (py_strip (drop 7 (take (length (py_strip fenced_example) - 3) (py_strip fenced_example))))
   \<and> py_strip (drop 7 (take (length (py_strip fenced_example) - 3) (py_strip fenced_example))) = keywords_x"
proof -
  have h: "is_prefix json_fence (py_strip fenced_example)"
    by (simp add: fenced_example_def eval_defs)
  have k: "py_strip (drop 7 (take (length (py_strip fenced_example) - 3) (py_strip fenced_example))) = keywords_x"
    by (simp add: fenced_example_def keywords_x_def eval_defs)
  from fence_strip [of fenced_example no_floats initial_state] h k show ?thesis
    by simp
qed

text \<open>
  C3 as stated fails: more than the seven and the three characters are removed.  With an
  ideographic space (U+3000) inside the fence, on both sides of the object, the slice
  \<open>[7:-3]\<close> still has the spaces and would not parse; the source strips them and parses
  the object.
\<close>

theorem fence_strip_trims_again:
  "is_prefix json_fence (py_strip wide_fence_example)
   \<and> drop 7 (take (length (py_strip wide_fence_example) - 3) (py_strip wide_fence_example))
       = [0x3000] @ keywords_x @ [0x3000]
   \<and> strip_fence (PyStr wide_fence_example :: unit pyval) = Inr keywords_x
   \<and> keywords_x \<noteq> [0x3000] @ keywords_x @ [0x3000]
   \<and> json_loads no_floats keywords_x = Inr (PyDict [(ascii ''keywords'', PyList [PyStr (ascii ''x'')])])
   \<and> json_loads no_floats ([0x3000] @ keywords_x @ [0x3000])
       = Inl (JSONDecodeError expecting_value ([0x3000] @ keywords_x @ [0x3000]) 0)"
  by (simp add: wide_fence_example_def keywords_x_def eval_defs)

section \<open>Runs against the stubbed HTTP layer\<close>

lemma stub_run:
  assumes "content \<in> {content_empty_object, content_not_json, content_number, content_string, content_ab}"
  shows "call_ai (openai_stub 200 content) (build_prompt (today (openai_stub 200 content)))
           (py_print request_line initial_state)
         = (fst (call_ai (openai_stub 200 content) (build_prompt (today (openai_stub 200 content)))
                   (py_print request_line initial_state)), Inr (PyStr content))"
  by (rule pair_snd) (rule stub_call [OF assms])

lemma fops_stub [simp]: "fops (openai_stub status content) = no_floats"
  by (simp add: openai_stub_def stub_world_def)

lemma stub_call_of:
  assumes "json_loads no_floats (openai_envelope content) =
     Inr (PyDict [(ascii ''choices'', PyList [PyDict [(ascii ''message'', PyDict [(ascii ''content'', PyStr content)])]])])"
  shows "snd (call_ai (openai_stub 200 content) prompt st) = Inr (PyStr content)"
proof -
  let ?W = "openai_stub 200 content"
  let ?r = "\<lparr>resp_status_code = 200, resp_reason = ''stub'', resp_url = ''stub'', resp_text = openai_envelope content\<rparr>"
  have 1: "\<not> opt_truthy (environ ?W gemini_name)" "environ ?W openai_name = Some (ascii ''sk-test'')"
      "ascii ''sk-test'' \<noteq> []"
    using credential_names_distinct by (simp_all add: openai_stub_def stub_world_def ascii_def)
  have 2: "\<And>rq. http_post ?W rq = Inr ?r"
    by (simp add: openai_stub_def stub_world_def)
  have 3: "raise_for_status ?r = Inr ()"
    by (simp add: raise_for_status_def)
  have 4: "json_loads (fops ?W) (resp_text ?r) =
     Inr (PyDict [(ascii ''choices'', PyList [PyDict [(ascii ''message'', PyDict [(ascii ''content'', PyStr content)])]])])"
    using assms by simp
  show ?thesis
    unfolding openai_call [OF 1 2 3 4] by (simp add: ascii_def)
qed

lemma envelope_loads_more:
  "content \<in> {content_surrogate, content_object} \<Longrightarrow>
   json_loads F (openai_envelope content) =
     Inr (PyDict [(ascii ''choices'', PyList [PyDict [(ascii ''message'', PyDict [(ascii ''content'', PyStr content)])]])])"
  by (auto simp: openai_envelope_def content_surrogate_def content_object_def
        encode_basestring_def escape_char_def eval_defs)

lemma stub_run_more:
  assumes "content \<in> {content_surrogate, content_object}"
  shows "call_ai (openai_stub 200 content) (build_prompt (today (openai_stub 200 content)))
           (py_print request_line initial_state)
         = (fst (call_ai (openai_stub 200 content) (build_prompt (today (openai_stub 200 content)))
                   (py_print request_line initial_state)), Inr (PyStr content))"
  by (rule pair_snd) (rule stub_call_of [OF envelope_loads_more [OF assms]])

lemma strip_content_more:
  "content \<in> {content_surrogate, content_object} \<Longrightarrow> strip_fence (PyStr content) = Inr content"
  by (auto simp: content_surrogate_def content_object_def eval_defs)

lemma loads_contents_more:
  "json_loads F content_surrogate = Inr (PyDict [(ascii ''keywords'', PyList [PyStr [0xD800]])])"
  "json_loads F content_object = Inr (PyDict [(ascii ''keywords'', PyDict [(ascii ''a'', PyInt 1)])])"
  by (simp_all add: content_surrogate_def content_object_def eval_defs
        unicode_escape_def hexval_def high_surrogate_def low_surrogate_def AList.update_def)

lemma main_try_stub_of:
  assumes "snd (call_ai (openai_stub 200 content) (build_prompt (today (openai_stub 200 content)))
                  (py_print request_line st)) = Inr (PyStr content)"
  shows "main_try (openai_stub 200 content) st
           = process_response no_floats (PyStr content)
               (fst (call_ai (openai_stub 200 content) (build_prompt (today (openai_stub 200 content)))
                       (py_print request_line st)))"
proof -
  have "fops (openai_stub 200 content) = no_floats"
    by (simp add: openai_stub_def stub_world_def)
  with main_try_after_call [OF pair_snd [OF assms]] show ?thesis
    by simp
qed

section \<open>Reading back what was written\<close>

lemma rev_upt_4: "rev [0..<4] = [3, 2, 1, 0 :: nat]"
  by code_simp

lemma hex_fixed_4:
  "hex_fixed 4 n = [hexdigit (n div 4096 mod 16), hexdigit (n div 256 mod 16),
                    hexdigit (n div 16 mod 16), hexdigit (n mod 16)]"
  by (simp add: hex_fixed_def rev_upt_4)

lemma hexval_hexdigit: "d < 16 \<Longrightarrow> hexval (hexdigit d) = Some d"
  by (auto simp: hexval_def hexdigit_def)

lemma hex4_control: "c < 32 \<Longrightarrow> hex4 (hex_fixed 4 c) = Some c"
proof -
  assume c: "c < 32"
  then have "c div 4096 = 0" "c div 256 = 0" "c div 16 < 16" by auto
  moreover have "c mod 16 < 16" by simp
  moreover have "c div 16 mod 16 = c div 16" using c by auto
  ultimately show ?thesis
    by (simp add: hex_fixed_4 hexval_hexdigit)
qed

lemma unicode_escape_control:
  assumes "c < 32" and "rest \<noteq> []"
  shows "unicode_escape (hex_fixed 4 c @ rest) = Inr (c, 4)"
proof -
  have l: "length (hex_fixed 4 c) = 4" by (simp add: hex_fixed_def)
  with assms(2) have "\<not> length (hex_fixed 4 c @ rest) \<le> 4"
    by (cases rest) auto
  moreover have "take 4 (hex_fixed 4 c @ rest) = hex_fixed 4 c" using l by simp
  moreover have "\<not> high_surrogate c" using assms(1) by (simp add: high_surrogate_def)
  ultimately show ?thesis
    using hex4_control [OF assms(1)] by (simp add: unicode_escape_def)
qed

lemma scanstring_escape_char:
  assumes "rest \<noteq> []"
  shows "scanstring b acc k (escape_char c @ rest) = scanstring b (acc @ [c]) (k + length (escape_char c)) rest"
proof -
  consider "c = 34" | "c = 92" | "c = 8" | "c = 12" | "c = 10" | "c = 13" | "c = 9"
    | "c < 32" "c \<noteq> 8" "c \<noteq> 12" "c \<noteq> 10" "c \<noteq> 13" "c \<noteq> 9"
    | "32 \<le> c" "c \<noteq> 34" "c \<noteq> 92"
    by linarith
  then show ?thesis
  proof cases
    case 8
    have l: "length (hex_fixed 4 c) = 4" by (simp add: hex_fixed_def)
    from 8 have e: "escape_char c = [92, 117] @ hex_fixed 4 c"
      by (simp add: escape_char_def)
    show ?thesis
      using unicode_escape_control [OF 8(1) assms] l by (simp add: e add.commute)
  next
    case 9
    then have e: "escape_char c = [c]"
      by (simp add: escape_char_def)
    from 9 show ?thesis by (simp add: e)
  qed (simp_all add: escape_char_def backslash_def)
qed

lemma scanstring_escape:
  "scanstring b acc k (concat (map escape_char s) @ 34 # rest)
     = Inr (acc @ s, k + length (concat (map escape_char s)) + 1)"
proof (induction s arbitrary: acc k)
  case Nil
  show ?case by simp
next
  case (Cons c s)
  have "concat (map escape_char (c # s)) @ 34 # rest
      = escape_char c @ (concat (map escape_char s) @ 34 # rest)"
    by simp
  moreover have "concat (map escape_char s) @ 34 # rest \<noteq> []" by simp
  ultimately show ?case
    using scanstring_escape_char [of "concat (map escape_char s) @ 34 # rest" b acc k c] Cons.IH
    by simp
qed

lemma scan_once_string:
  "scan_once F (encode_basestring s @ rest) = Inr (PyStr s, length (encode_basestring s))"
  by (simp add: encode_basestring_def scan_once.simps scanstring_escape)

lemma skip_ws_non_ws [simp]: "\<not> is_ws c \<Longrightarrow> skip_ws (c # r) = c # r"
  by (simp add: skip_ws_def)

lemma skip_ws_newline_indent [simp]: "skip_ws (newline_indent l @ r) = skip_ws r"
  by (simp add: skip_ws_def newline_indent_def is_ws_def dropWhile_append)

lemma skip_ws_space [simp]: "skip_ws (32 # r) = skip_ws r" "skip_ws (10 # r) = skip_ws r"
  by (simp_all add: skip_ws_def is_ws_def)

lemma not_ws [simp]: "\<not> is_ws 34" "\<not> is_ws 44" "\<not> is_ws 93" "\<not> is_ws 125" "\<not> is_ws 58"
  "\<not> is_ws 91" "\<not> is_ws 123"
  by (simp_all add: is_ws_def)

lemma encode_basestring_Cons: "encode_basestring s = 34 # concat (map escape_char s) @ [34]"
  by (simp add: encode_basestring_def)

lemma skip_ws_encoded [simp]: "skip_ws (encode_basestring s @ r) = encode_basestring s @ r"
  by (simp add: encode_basestring_Cons)

lemma scan_array_close:
  "scan_once F cs = Inr (v, n) \<Longrightarrow> skip_ws (drop n cs) = 93 # r \<Longrightarrow>
   scan_array F vals cs = Inr (PyList (vals @ [v]), length cs - length r)"
  by (subst scan_array.simps) simp

lemma scan_array_comma:
  "scan_once F cs = Inr (v, n) \<Longrightarrow> skip_ws (drop n cs) = 44 # r \<Longrightarrow>
   scan_array F (vals @ [v]) (skip_ws r) = Inr (lst, k) \<Longrightarrow>
   scan_array F vals cs = Inr (lst, length cs - length (skip_ws r) + k)"
  by (subst scan_array.simps) simp

lemma scan_once_array:
  "\<not> starts 93 (skip_ws r) \<Longrightarrow> scan_array F [] (skip_ws r) = Inr (v, n) \<Longrightarrow>
   scan_once F (91 # r) = Inr (v, Suc (length r) - length (skip_ws r) + n)"
  by (subst scan_once.simps) simp

lemma scan_once_empty_array: "scan_once F (91 # 93 # r) = Inr (PyList [], 2)"
  by (subst scan_once.simps) (simp add: starts_def)

lemma items_text_simps:
  "items_text l [x] = encode_basestring x"
  "items_text l (x # y # ys) = encode_basestring x @ 44 # newline_indent l @ items_text l (y # ys)"
  by (simp_all add: items_text_def)

lemma skip_ws_items [simp]: "skip_ws (items_text l (y # ys) @ r) = items_text l (y # ys) @ r"
  by (cases ys) (simp_all add: items_text_simps)

lemma scan_array_strings:
  "scan_array F vals (items_text l (x # xs) @ newline_indent l' @ 93 # rest)
     = Inr (PyList (vals @ map PyStr (x # xs)),
            length (items_text l (x # xs)) + length (newline_indent l') + 1)"
proof (induction xs arbitrary: x vals)
  case Nil
  let ?cs = "encode_basestring x @ newline_indent l' @ 93 # rest"
  have 1: "scan_once F ?cs = Inr (PyStr x, length (encode_basestring x))"
    by (rule scan_once_string)
  have 2: "skip_ws (drop (length (encode_basestring x)) ?cs) = 93 # rest"
    by simp
  from scan_array_close [OF 1 2, of vals] show ?case
    by (simp add: items_text_simps)
next
  case (Cons y ys)
  let ?tail = "items_text l (y # ys) @ newline_indent l' @ 93 # rest"
  let ?cs = "encode_basestring x @ 44 # newline_indent l @ ?tail"
  have 1: "scan_once F ?cs = Inr (PyStr x, length (encode_basestring x))"
    by (rule scan_once_string)
  have 2: "skip_ws (drop (length (encode_basestring x)) ?cs) = 44 # newline_indent l @ ?tail"
    by simp
  have t: "skip_ws (newline_indent l @ ?tail) = ?tail"
    by simp
  have 3: "scan_array F (vals @ [PyStr x]) (skip_ws (newline_indent l @ ?tail))
     = Inr (PyList (vals @ map PyStr (x # y # ys)),
            length (items_text l (y # ys)) + length (newline_indent l') + 1)"
    using Cons.IH [of "vals @ [PyStr x]" y] by simp
  from scan_array_comma [OF 1 2 3] show ?case
    by (simp add: items_text_simps)
qed

lemma iterencode_list_strings:
  "concat (iterencode_list F buf (map PyStr (x # xs)) l) = buf @ items_text l (x # xs)"
  by (induction xs arbitrary: x buf) (simp_all add: items_text_simps)

lemma dumps_string_list:
  "dumps_at F (PyList (PyStr x # map PyStr xs)) l
     = 91 # newline_indent (Suc l) @ items_text (Suc l) (x # xs) @ newline_indent l @ [93]"
  using iterencode_list_strings [of F _ x xs "Suc l"]
  by (simp add: dumps_at_def)

lemma dumps_empty_list: "dumps_at F (PyList []) l = [91, 93]"
  by (simp add: dumps_at_def ascii_def)

lemma scan_once_string_list:
  "scan_once F (dumps_at F (PyList (map PyStr xs)) l @ rest)
     = Inr (PyList (map PyStr xs), length (dumps_at F (PyList (map PyStr xs)) l))"
proof (cases xs)
  case Nil
  then show ?thesis by (simp add: dumps_empty_list scan_once_empty_array)
next
  case (Cons x xs')
  let ?r = "newline_indent (Suc l) @ items_text (Suc l) (x # xs') @ newline_indent l @ 93 # rest"
  have s: "skip_ws ?r = items_text (Suc l) (x # xs') @ newline_indent l @ 93 # rest"
    by simp
  have 1: "\<not> starts 93 (skip_ws ?r)"
    unfolding s by (cases xs') (simp_all add: items_text_simps starts_def encode_basestring_Cons)
  have 2: "scan_array F [] (skip_ws ?r)
     = Inr (PyList (map PyStr (x # xs')),
            length (items_text (Suc l) (x # xs')) + length (newline_indent l) + 1)"
    unfolding s using scan_array_strings [of F "[]" "Suc l" x xs' l rest] by simp
  from scan_once_array [OF 1 2] show ?thesis
    by (simp add: Cons dumps_string_list s)
qed

lemma scan_object_single:
  assumes v: "scan_once F (vt @ 10 # 125 # rest) = Inr (v, length vt)"
    and ws: "skip_ws (vt @ 10 # 125 # rest) = vt @ 10 # 125 # rest"
  shows "scan_object F [] (encode_basestring key @ 58 # 32 # vt @ 10 # 125 # rest)
           = Inr (PyDict [(key, v)], length (encode_basestring key) + 2 + length vt + 2)"
proof -
  let ?esc = "concat (map escape_char key)"
  let ?after = "58 # 32 # vt @ 10 # 125 # rest"
  let ?cs = "34 # ?esc @ 34 # ?after"
  have cs: "encode_basestring key @ ?after = ?cs"
    by (simp add: encode_basestring_Cons)
  have 1: "scanstring (length ?cs) [] 0 (?esc @ 34 # ?after) = Inr (key, length ?esc + 1)"
    using scanstring_escape [of "length ?cs" "[]" 0 key ?after] by simp
  have 2: "skip_ws (drop (length ?esc + 1) (?esc @ 34 # ?after)) = ?after"
    by simp
  have 3: "skip_ws (32 # vt @ 10 # 125 # rest) = vt @ 10 # 125 # rest"
    using ws by simp
  have 4: "skip_ws (drop (length vt) (vt @ 10 # 125 # rest)) = 125 # rest"
    by simp
  show ?thesis
    unfolding cs
    by (subst scan_object.simps) (simp add: scanstring_escape ws v encode_basestring_Cons del: scanstring.simps)
qed

lemma keywords_document_text:
  "keywords_document F kw
     = 123 # 10 # 32 # 32 # encode_basestring (ascii ''keywords'') @ 58 # 32 # dumps_at F kw 1 @ [10, 125]"
  by (simp add: document_layout newline_indent_def ascii_def numeral_2_eq_2)

lemma scan_once_document:
  assumes v: "scan_once F (dumps_at F kw 1 @ [10, 125]) = Inr (kw, length (dumps_at F kw 1))"
    and ws: "skip_ws (dumps_at F kw 1 @ [10, 125]) = dumps_at F kw 1 @ [10, 125]"
  shows "json_loads F (keywords_document F kw) = Inr (PyDict [(ascii ''keywords'', kw)])"
proof -
  let ?vt = "dumps_at F kw 1"
  let ?r = "10 # 32 # 32 # encode_basestring (ascii ''keywords'') @ 58 # 32 # ?vt @ [10, 125]"
  have o: "scan_object F [] (encode_basestring (ascii ''keywords'') @ 58 # 32 # ?vt @ 10 # 125 # [])
      = Inr (PyDict [(ascii ''keywords'', kw)], length (encode_basestring (ascii ''keywords'')) + 2 + length ?vt + 2)"
    using v ws by (intro scan_object_single) simp_all
  have s: "skip_ws ?r = encode_basestring (ascii ''keywords'') @ 58 # 32 # ?vt @ [10, 125]"
    by simp
  have ns: "\<not> starts 125 (skip_ws ?r)"
    unfolding s by (simp add: starts_def encode_basestring_Cons)
  have so: "scan_once F (123 # ?r) = Inr (PyDict [(ascii ''keywords'', kw)], length (123 # ?r))"
    using o ns by (subst scan_once.simps) (simp add: s)
  have nb: "\<not> is_prefix [0xFEFF] (123 # ?r)"
    by (simp add: is_prefix_def)
  show ?thesis
    unfolding keywords_document_text
    using so nb by (simp add: json_loads_def skip_ws_def)
qed

lemma string_list_roundtrip:
  "json_loads F (keywords_document F (PyList (map PyStr xs))) = Inr (PyDict [(ascii ''keywords'', PyList (map PyStr xs))])"
proof (rule scan_once_document)
  show "scan_once F (dumps_at F (PyList (map PyStr xs)) 1 @ [10, 125])
      = Inr (PyList (map PyStr xs), length (dumps_at F (PyList (map PyStr xs)) 1))"
    by (rule scan_once_string_list)
next
  show "skip_ws (dumps_at F (PyList (map PyStr xs)) 1 @ [10, 125])
      = dumps_at F (PyList (map PyStr xs)) 1 @ [10, 125]"
    by (cases xs) (simp_all add: dumps_empty_list dumps_string_list)
qed

lemma decode1: "b0 < 0x80 \<Longrightarrow> utf8_decode (b0 # bs) = map_option (Cons b0) (utf8_decode bs)"
  by simp

lemma decode2:
  "0xC2 \<le> b0 \<Longrightarrow> b0 \<le> 0xDF \<Longrightarrow> continuation b1 \<Longrightarrow>
   utf8_decode (b0 # b1 # bs) = map_option (Cons ((b0 - 0xC0) * 0x40 + (b1 - 0x80))) (utf8_decode bs)"
  by simp

lemma decode3:
  "0xE0 \<le> b0 \<Longrightarrow> b0 \<le> 0xEF \<Longrightarrow> continuation b1 \<Longrightarrow> continuation b2 \<Longrightarrow>
   0x800 \<le> (b0 - 0xE0) * 0x1000 + (b1 - 0x80) * 0x40 + (b2 - 0x80) \<Longrightarrow>
   encodable ((b0 - 0xE0) * 0x1000 + (b1 - 0x80) * 0x40 + (b2 - 0x80)) \<Longrightarrow>
   utf8_decode (b0 # b1 # b2 # bs)
     = map_option (Cons ((b0 - 0xE0) * 0x1000 + (b1 - 0x80) * 0x40 + (b2 - 0x80))) (utf8_decode bs)"
  by simp

lemma decode4:
  "0xF0 \<le> b0 \<Longrightarrow> b0 \<le> 0xF4 \<Longrightarrow> continuation b1 \<Longrightarrow> continuation b2 \<Longrightarrow> continuation b3 \<Longrightarrow>
   0x10000 \<le> (b0 - 0xF0) * 0x40000 + (b1 - 0x80) * 0x1000 + (b2 - 0x80) * 0x40 + (b3 - 0x80) \<Longrightarrow>
   (b0 - 0xF0) * 0x40000 + (b1 - 0x80) * 0x1000 + (b2 - 0x80) * 0x40 + (b3 - 0x80) \<le> 0x10FFFF \<Longrightarrow>
   utf8_decode (b0 # b1 # b2 # b3 # bs)
     = map_option (Cons ((b0 - 0xF0) * 0x40000 + (b1 - 0x80) * 0x1000 + (b2 - 0x80) * 0x40 + (b3 - 0x80)))
         (utf8_decode bs)"
  by simp

lemma div_64_64: "(c :: nat) div 64 div 64 = c div 4096"
  by (simp add: div_mult2_eq [symmetric])

lemma div_64_4096: "(c :: nat) div 64 div 4096 = c div 262144"
  by (simp add: div_mult2_eq [symmetric])

lemma split3: "c div 0x1000 * 0x1000 + c div 0x40 mod 0x40 * 0x40 + c mod 0x40 = (c :: nat)"
proof -
  have 1: "c div 64 div 64 * 64 + c div 64 mod 64 = c div 64"
    by simp
  have "c div 4096 * 4096 + c div 64 mod 64 * 64 + c mod 64
      = (c div 64 div 64 * 64 + c div 64 mod 64) * 64 + c mod 64"
    by (simp add: div_64_64 distrib_right)
  also have "\<dots> = c div 64 * 64 + c mod 64"
    by (simp only: 1)
  also have "\<dots> = c"
    by simp
  finally show ?thesis
    by simp
qed

lemma split4:
  "c div 0x40000 * 0x40000 + c div 0x1000 mod 0x40 * 0x1000 + c div 0x40 mod 0x40 * 0x40 + c mod 0x40 = (c :: nat)"
proof -
  have 1: "c div 64 div 4096 * 4096 + c div 64 div 64 mod 64 * 64 + c div 64 mod 64 = c div 64"
    using split3 [of "c div 64"] by simp
  have "c div 262144 * 262144 + c div 4096 mod 64 * 4096 + c div 64 mod 64 * 64 + c mod 64
      = (c div 64 div 4096 * 4096 + c div 64 div 64 mod 64 * 64 + c div 64 mod 64) * 64 + c mod 64"
    by (simp add: div_64_64 div_64_4096 distrib_right)
  also have "\<dots> = c div 64 * 64 + c mod 64"
    by (simp only: 1)
  also have "\<dots> = c"
    by simp
  finally show ?thesis
    by simp
qed

lemma utf8_decode_char:
  assumes "encodable c"
  shows "utf8_decode (utf8_char c @ bs) = map_option (Cons c) (utf8_decode bs)"
proof -
  consider "c < 0x80" | "0x80 \<le> c" "c < 0x800" | "0x800 \<le> c" "c < 0x10000" | "0x10000 \<le> c"
    by linarith
  then show ?thesis
  proof cases
    case 1
    then have "utf8_char c = [c]" by (simp add: utf8_char_def)
    with 1 show ?thesis by (simp del: utf8_decode.simps add: decode1)
  next
    case 2
    then have u: "utf8_char c = [0xC0 + c div 0x40, 0x80 + c mod 0x40]"
      by (simp add: utf8_char_def)
    from 2 have a: "0xC2 \<le> 0xC0 + c div 0x40" "0xC0 + c div 0x40 \<le> 0xDF" by auto
    have b: "continuation (0x80 + c mod 0x40)"
      unfolding continuation_def using mod_less_divisor [of "0x40" c] by auto
    have v: "(0xC0 + c div 0x40 - 0xC0) * 0x40 + (0x80 + c mod 0x40 - 0x80) = c"
      by simp
    from decode2 [OF a b, of bs] show ?thesis
      unfolding u v by simp
  next
    case 3
    then have u: "utf8_char c = [0xE0 + c div 0x1000, 0x80 + c div 0x40 mod 0x40, 0x80 + c mod 0x40]"
      by (simp add: utf8_char_def)
    from 3 have a: "0xE0 \<le> 0xE0 + c div 0x1000" "0xE0 + c div 0x1000 \<le> 0xEF" by auto
    have b: "continuation (0x80 + c div 0x40 mod 0x40)" "continuation (0x80 + c mod 0x40)"
      unfolding continuation_def
      using mod_less_divisor [of "0x40" c] mod_less_divisor [of "0x40" "c div 0x40"] by auto
    have v: "(0xE0 + c div 0x1000 - 0xE0) * 0x1000 + (0x80 + c div 0x40 mod 0x40 - 0x80) * 0x40
               + (0x80 + c mod 0x40 - 0x80) = c"
      using split3 [of c] by simp
    from decode3 [OF a b, of bs, unfolded v] 3 assms show ?thesis
      unfolding u by simp
  next
    case 4
    from assms 4 have le: "c \<le> 0x10FFFF" by (simp add: encodable_def)
    from 4 have u: "utf8_char c = [0xF0 + c div 0x40000, 0x80 + c div 0x1000 mod 0x40,
                                  0x80 + c div 0x40 mod 0x40, 0x80 + c mod 0x40]"
      by (simp add: utf8_char_def)
    from le have a: "0xF0 \<le> 0xF0 + c div 0x40000" "0xF0 + c div 0x40000 \<le> 0xF4" by auto
    have b: "continuation (0x80 + c div 0x1000 mod 0x40)" "continuation (0x80 + c div 0x40 mod 0x40)"
        "continuation (0x80 + c mod 0x40)"
      unfolding continuation_def
      using mod_less_divisor [of "0x40" c] mod_less_divisor [of "0x40" "c div 0x40"]
        mod_less_divisor [of "0x40" "c div 0x1000"] by auto
    have v: "(0xF0 + c div 0x40000 - 0xF0) * 0x40000 + (0x80 + c div 0x1000 mod 0x40 - 0x80) * 0x1000
               + (0x80 + c div 0x40 mod 0x40 - 0x80) * 0x40 + (0x80 + c mod 0x40 - 0x80) = c"
      using split4 [of c] by simp
    from decode4 [OF a b, of bs, unfolded v] 4 le show ?thesis
      unfolding u by simp
  qed
qed

lemma utf8_decode_bytes:
  "list_all encodable s \<Longrightarrow> utf8_decode (utf8_bytes s @ bs) = map_option ((@) s) (utf8_decode bs)"
proof (induction s)
  case Nil
  show ?case by (simp add: utf8_bytes_def option.map_ident)
next
  case (Cons c s)
  then have "utf8_decode (utf8_char c @ utf8_bytes s @ bs) = map_option (Cons c) (map_option ((@) s) (utf8_decode bs))"
    by (simp add: utf8_decode_char)
  then show ?case
    by (simp add: utf8_bytes_def option.map_comp comp_def)
qed

lemma utf8_roundtrip: "list_all encodable s \<Longrightarrow> utf8_decode (utf8_bytes s) = Some s"
  using utf8_decode_bytes [of s "[]"] by simp

lemma hexdigit_not_cr: "hexdigit d \<noteq> 13"
  by (simp add: hexdigit_def)

lemma escape_char_no_cr: "13 \<notin> set (escape_char c)"
  by (auto simp: escape_char_def hex_fixed_def hexdigit_not_cr)

lemma encode_basestring_no_cr: "13 \<notin> set (encode_basestring s)"
  by (auto simp: encode_basestring_def escape_char_no_cr)

lemma newline_indent_no_cr: "13 \<notin> set (newline_indent l)"
  by (auto simp: newline_indent_def)

lemma items_text_no_cr: "13 \<notin> set (items_text l (x # xs))"
  by (induction xs arbitrary: x)
     (simp_all add: items_text_simps encode_basestring_no_cr newline_indent_no_cr)

lemma string_list_no_cr: "13 \<notin> set (dumps_at F (PyList (map PyStr xs)) l)"
  by (cases xs) (simp_all add: dumps_empty_list dumps_string_list items_text_no_cr newline_indent_no_cr)

lemma document_no_cr: "13 \<notin> set (dumps_at F kw 1) \<Longrightarrow> 13 \<notin> set (keywords_document F kw)"
  by (simp add: keywords_document_text encode_basestring_no_cr)

lemma universal_newlines_id: "13 \<notin> set s \<Longrightarrow> universal_newlines s = s"
  by (induction s rule: universal_newlines.induct) auto

lemma load_written:
  assumes "list_all encodable (keywords_document F kw)"
    and "13 \<notin> set (keywords_document F kw)"
    and "json_loads F (keywords_document F kw) = Inr obj"
  shows "json_load_file F (py_print line (written F kw st)) = Some obj"
    and "json_load_file F (written F kw st) = Some obj"
  using assms
  by (simp_all add: json_load_file_def written_def py_print_def utf8_roundtrip universal_newlines_id)

lemma main_Inr:
  "main W st = (st', Inr u) \<Longrightarrow> main_try W st = (st', Inr u)"
  by (auto simp: main_def Let_def split: prod.splits sum.splits)

text \<open>
  C6.  When a run succeeds and the keywords it extracted are a list of strings, reading
  the output file back (decoding it as UTF-8 and parsing it as JSON) gives an object whose
  \<open>keywords\<close> field is that same list, element by element and in the same order.
\<close>

theorem written_keywords_roundtrip:
  assumes "call_ai W (build_prompt (today W)) (py_print request_line st) = (st2, Inr v)"
    and "strip_fence v = Inr text"
    and "json_loads (fops W) text = Inr result"
    and "dict_get result (ascii ''keywords'') (PyList []) = Inr (PyList (map PyStr xs))"
    and "main W st = (st', Inr ())"
  shows "json_load_file (fops W) st' = Some (PyDict [(ascii ''keywords'', PyList (map PyStr xs))])
         \<and> dict_get (PyDict [(ascii ''keywords'', PyList (map PyStr xs))]) (ascii ''keywords'') (PyList [])
             = Inr (PyList (map PyStr xs))"
proof -
  let ?F = "fops W"
  let ?kw = "PyList (map PyStr xs) :: 'a pyval"
  from main_Inr [OF assms(5)] main_try_after_call [OF assms(1)]
  have pr: "process_response ?F v st2 = (st', Inr ())"
    by simp
  have t: "truthy ?F ?kw"
  proof (rule ccontr)
    assume "\<not> truthy ?F ?kw"
    from process_response_falsy [OF assms(2,3,4) this, of st2] pr show False by simp
  qed
  have e: "list_all encodable (keywords_document ?F ?kw)"
  proof (rule ccontr)
    assume "\<not> list_all encodable (keywords_document ?F ?kw)"
    from process_response_unencodable [OF assms(2,3,4) t this, of st2] pr show False by auto
  qed
  from process_response_written [OF assms(2,3,4) t e, of st2] pr
  have st': "st' = py_print (success_line (length xs)) (written ?F ?kw st2)"
    by simp
  have "json_load_file ?F st' = Some (PyDict [(ascii ''keywords'', ?kw)])"
    unfolding st'
    by (rule load_written(1) [OF e document_no_cr [OF string_list_no_cr] string_list_roundtrip])
  then show ?thesis
    by (simp add: dict_get_def)
qed

lemma main_stub_ab: "snd (main (openai_stub 200 content_ab) initial_state) = Inr ()"
proof -
  let ?W = "openai_stub 200 content_ab"
  let ?kw = "PyList [PyStr (ascii ''a''), PyStr (ascii ''b'')] :: unit pyval"
  have s: "strip_fence (PyStr content_ab :: unit pyval) = Inr content_ab"
    by (simp add: strip_content)
  have l: "json_loads no_floats content_ab = Inr (PyDict [(ascii ''keywords'', ?kw)])"
    by (simp add: loads_contents)
  have g: "dict_get (PyDict [(ascii ''keywords'', ?kw)]) (ascii ''keywords'') (PyList []) = Inr ?kw"
    by (simp add: dict_get_def)
  have t: "truthy no_floats ?kw" by simp
  have e: "list_all encodable (keywords_document no_floats ?kw)"
    by (simp add: enc_document dumps_at_def enc_encode_basestring)
  from process_response_written [OF s l g t e] show ?thesis
    by (simp add: main_try_stub main_def)
qed

theorem written_keywords_roundtrip_witness:
  "snd (main (openai_stub 200 content_ab) initial_state) = Inr ()
   \<and> json_load_file no_floats (fst (main (openai_stub 200 content_ab) initial_state))
       = Some (PyDict [(ascii ''keywords'', PyList [PyStr (ascii ''a''), PyStr (ascii ''b'')])])"
proof -
  let ?W = "openai_stub 200 content_ab"
  have s: "strip_fence (PyStr content_ab :: unit pyval) = Inr content_ab"
    by (simp add: strip_content)
  have l: "json_loads (fops ?W) content_ab
      = Inr (PyDict [(ascii ''keywords'', PyList [PyStr (ascii ''a''), PyStr (ascii ''b'')])])"
    by (simp add: loads_contents)
  have g: "dict_get (PyDict [(ascii ''keywords'', PyList [PyStr (ascii ''a''), PyStr (ascii ''b'')])] :: unit pyval)
             (ascii ''keywords'') (PyList []) = Inr (PyList (map PyStr [ascii ''a'', ascii ''b'']))"
    by (simp add: dict_get_def)
  have m: "main ?W initial_state = (fst (main ?W initial_state), Inr ())"
    by (rule pair_snd) (rule main_stub_ab)
  from written_keywords_roundtrip [OF stub_run s l g m]
  have "json_load_file (fops ?W) (fst (main ?W initial_state))
      = Some (PyDict [(ascii ''keywords'', PyList (map PyStr [ascii ''a'', ascii ''b'']))])"
    by (rule conjunct1) simp
  then have "json_load_file no_floats (fst (main ?W initial_state))
      = Some (PyDict [(ascii ''keywords'', PyList [PyStr (ascii ''a''), PyStr (ascii ''b'')])])"
    by (simp only: fops_stub list.map)
  with main_stub_ab show ?thesis
    by (rule conjI)
qed

section \<open>Keywords that are not a list\<close>

lemma string_roundtrip:
  "json_loads F (keywords_document F (PyStr s)) = Inr (PyDict [(ascii ''keywords'', PyStr s)])"
proof (rule scan_once_document)
  show "scan_once F (dumps_at F (PyStr s) 1 @ [10, 125]) = Inr (PyStr s, length (dumps_at F (PyStr s) 1))"
    by (simp add: dumps_at_def scan_once_string)
next
  show "skip_ws (dumps_at F (PyStr s) 1 @ [10, 125]) = dumps_at F (PyStr s) 1 @ [10, 125]"
    by (simp add: dumps_at_def)
qed

lemma string_no_cr: "13 \<notin> set (dumps_at F (PyStr s) l)"
  by (simp add: dumps_at_def encode_basestring_no_cr)

lemma document_text:
  "keywords_document F kw
     = ascii ''{'' @ [10] @ ascii ''  '' @ quoted ''keywords'' @ ascii '': '' @ dumps_at F kw 1
         @ [10] @ ascii ''}''"
  by (simp add: keywords_document_text quoted_def ascii_def encode_basestring_def escape_char_def)

text \<open>
  C10 (as amended).  A truthy \<open>keywords\<close> value that is not a list but has a length, that is
  a non-empty string or a non-empty object, and whose document can be encoded as UTF-8, passes
  validation: the run succeeds, and the file it leaves holds the bytes of the document
  \<open>{"keywords": value}\<close> with that value as it is.  For a string, reading the file back gives
  that string as the \<open>keywords\<close> field.  So the output of a successful run need not be a
  list of strings.
\<close>

theorem truthy_non_list_keywords:
  assumes "call_ai W (build_prompt (today W)) (py_print request_line st) = (st2, Inr v)"
    and "strip_fence v = Inr text"
    and "json_loads (fops W) text = Inr result"
    and "dict_get result (ascii ''keywords'') (PyList []) = Inr kw"
    and "truthy (fops W) kw"
    and "list_all encodable (keywords_document (fops W) kw)"
  shows "(\<forall>s. kw = PyStr s \<longrightarrow>
            main W st = (py_print (success_line (length s)) (written (fops W) kw st2), Inr ())
            \<and> json_load_file (fops W) (fst (main W st)) = Some (PyDict [(ascii ''keywords'', PyStr s)]))
         \<and> (\<forall>d. kw = PyDict d \<longrightarrow>
            main W st = (py_print (success_line (length d)) (written (fops W) kw st2), Inr ()))
         \<and> ((\<exists>s. kw = PyStr s) \<or> (\<exists>d. kw = PyDict d) \<longrightarrow>
            snd (main W st) = Inr ()
            \<and> files (fst (main W st)) (OUTPUT_FILENAME CONFIG)
                = Some (utf8_bytes (keywords_document (fops W) kw))
            \<and> keywords_document (fops W) kw
                = ascii ''{'' @ [10] @ ascii ''  '' @ quoted ''keywords'' @ ascii '': ''
                    @ dumps_at (fops W) kw 1 @ [10] @ ascii ''}'')"
proof -
  note pr = process_response_written [OF assms(2-6), of st2]
  note mt = main_try_after_call [OF assms(1)]
  have a: "main W st = (py_print (success_line (length s)) (written (fops W) kw st2), Inr ())"
    if "kw = PyStr s" for s
    using that pr mt by (simp add: main_success)
  have b: "main W st = (py_print (success_line (length d)) (written (fops W) kw st2), Inr ())"
    if "kw = PyDict d" for d
    using that pr mt by (simp add: main_success)
  have r: "json_load_file (fops W) (fst (main W st)) = Some (PyDict [(ascii ''keywords'', PyStr s)])"
    if k: "kw = PyStr s" for s
  proof -
    from assms(6) k have e: "list_all encodable (keywords_document (fops W) (PyStr s))"
      by simp
    from load_written(1) [OF e document_no_cr [OF string_no_cr] string_roundtrip]
    show ?thesis
      by (simp add: a [OF k] k)
  qed
  have c: "snd (main W st) = Inr ()
       \<and> files (fst (main W st)) (OUTPUT_FILENAME CONFIG)
           = Some (utf8_bytes (keywords_document (fops W) kw))"
    if "(\<exists>s. kw = PyStr s) \<or> (\<exists>d. kw = PyDict d)"
    using that a b by (auto simp: written_def py_print_def)
  from a b r c document_text [of "fops W" kw] show ?thesis
    by blast
qed

theorem truthy_non_list_keywords_witness:
  "json_loads no_floats content_string = Inr (PyDict [(ascii ''keywords'', PyStr (ascii ''abc''))])
   \<and> truthy no_floats (PyStr (ascii ''abc''))
   \<and> snd (main (openai_stub 200 content_string) initial_state) = Inr ()
   \<and> files (fst (main (openai_stub 200 content_string) initial_state)) (OUTPUT_FILENAME CONFIG)
       = Some (utf8_bytes (ascii ''{'' @ [10] @ ascii ''  '' @ quoted ''keywords'' @ ascii '': ''
                 @ quoted ''abc'' @ [10] @ ascii ''}''))
   \<and> json_load_file no_floats (fst (main (openai_stub 200 content_string) initial_state))
       = Some (PyDict [(ascii ''keywords'', PyStr (ascii ''abc''))])
   \<and> json_loads no_floats content_object = Inr (PyDict [(ascii ''keywords'', PyDict [(ascii ''a'', PyInt 1)])])
   \<and> truthy no_floats (PyDict [(ascii ''a'', PyInt 1)])
   \<and> snd (main (openai_stub 200 content_object) initial_state) = Inr ()
   \<and> files (fst (main (openai_stub 200 content_object) initial_state)) (OUTPUT_FILENAME CONFIG)
       = Some (utf8_bytes (ascii ''{'' @ [10] @ ascii ''  '' @ quoted ''keywords'' @ ascii '': {'' @ [10]
                 @ ascii ''    '' @ quoted ''a'' @ ascii '': 1'' @ [10] @ ascii ''  }'' @ [10] @ ascii ''}''))"
proof -
  let ?W = "openai_stub 200 content_string"
  let ?s = "PyStr (ascii ''abc'') :: unit pyval"
  have s: "strip_fence (PyStr content_string :: unit pyval) = Inr content_string"
    by (simp add: strip_content)
  have l: "json_loads (fops ?W) content_string = Inr (PyDict [(ascii ''keywords'', ?s)])"
    by (simp add: loads_contents)
  have g: "dict_get (PyDict [(ascii ''keywords'', ?s)]) (ascii ''keywords'') (PyList []) = Inr ?s"
    by (simp add: dict_get_def)
  have t: "truthy (fops ?W) ?s"
    by (simp add: ascii_def)
  have e: "list_all encodable (keywords_document (fops ?W) ?s)"
    by (simp add: enc_document dumps_at_def enc_encode_basestring)
  have ds: "dumps_at no_floats ?s 1 = quoted ''abc''"
    by (simp add: dumps_at_def encode_basestring_def escape_char_def quoted_def ascii_def)
  note one = truthy_non_list_keywords [OF stub_run s l g t e]
  from one have 1: "snd (main ?W initial_state) = Inr ()"
      "files (fst (main ?W initial_state)) (OUTPUT_FILENAME CONFIG)
         = Some (utf8_bytes (keywords_document (fops ?W) ?s))"
      "keywords_document (fops ?W) ?s
         = ascii ''{'' @ [10] @ ascii ''  '' @ quoted ''keywords'' @ ascii '': ''
             @ dumps_at (fops ?W) ?s 1 @ [10] @ ascii ''}''"
      "json_load_file (fops ?W) (fst (main ?W initial_state)) = Some (PyDict [(ascii ''keywords'', ?s)])"
    by blast+
  let ?V = "openai_stub 200 content_object"
  let ?d = "PyDict [(ascii ''a'', PyInt 1)] :: unit pyval"
  have s': "strip_fence (PyStr content_object :: unit pyval) = Inr content_object"
    by (simp add: strip_content_more)
  have l': "json_loads (fops ?V) content_object = Inr (PyDict [(ascii ''keywords'', ?d)])"
    by (simp add: loads_contents_more)
  have g': "dict_get (PyDict [(ascii ''keywords'', ?d)]) (ascii ''keywords'') (PyList []) = Inr ?d"
    by (simp add: dict_get_def)
  have t': "truthy (fops ?V) ?d"
    by simp
  have e': "list_all encodable (keywords_document (fops ?V) ?d)"
    by (simp add: enc_document dumps_at_def enc_encode_basestring)
  have dd: "dumps_at no_floats ?d 1
      = ascii ''{'' @ [10] @ ascii ''    '' @ quoted ''a'' @ ascii '': 1'' @ [10] @ ascii ''  }''"
    by (simp add: dumps_at_def encode_basestring_def escape_char_def quoted_def ascii_def
          newline_indent_def str_int_def str_nat.simps numeral_2_eq_2 numeral_eq_Suc)
  note two = truthy_non_list_keywords [OF stub_run_more s' l' g' t' e']
  from two have 2: "snd (main ?V initial_state) = Inr ()"
      "files (fst (main ?V initial_state)) (OUTPUT_FILENAME CONFIG)
         = Some (utf8_bytes (keywords_document (fops ?V) ?d))"
      "keywords_document (fops ?V) ?d
         = ascii ''{'' @ [10] @ ascii ''  '' @ quoted ''keywords'' @ ascii '': ''
             @ dumps_at (fops ?V) ?d 1 @ [10] @ ascii ''}''"
    by blast+
  from l t 1 ds l' t' 2 dd show ?thesis
    by (simp add: ascii_def quoted_def)
qed

text \<open>
  C10 as stated fails for a number: with the response \<open>{"keywords": 5}\<close> the value is
  truthy, but the run ends with the \<open>TypeError\<close> of \<open>len\<close> and the error entry in the file.
\<close>

theorem number_keywords_fail:
  "json_loads no_floats content_number = Inr (PyDict [(ascii ''keywords'', PyInt 5)])
   \<and> truthy no_floats (PyInt 5)
   \<and> snd (main (openai_stub 200 content_number) initial_state) = Inl (no_len ''int'')
   \<and> files (fst (main (openai_stub 200 content_number) initial_state)) (OUTPUT_FILENAME CONFIG)
       = Some (utf8_bytes (keywords_document no_floats (error_entry (no_len ''int''))))"
proof -
  let ?W = "openai_stub 200 content_number"
  let ?st2 = "fst (call_ai ?W (build_prompt (today ?W)) (py_print request_line initial_state))"
  have s: "strip_fence (PyStr content_number :: unit pyval) = Inr content_number"
    by (simp add: strip_content)
  have l: "json_loads no_floats content_number = Inr (PyDict [(ascii ''keywords'', PyInt 5)])"
    by (simp add: loads_contents)
  have g: "dict_get (PyDict [(ascii ''keywords'', PyInt 5)] :: unit pyval)
             (ascii ''keywords'') (PyList []) = Inr (PyInt 5)"
    by (simp add: dict_get_def)
  have t: "truthy no_floats (PyInt 5)"
    by simp
  have e: "list_all encodable (keywords_document no_floats (PyInt 5))"
    by (simp add: enc_document dumps_at_def)
  from process_response_written [OF s l g t e, of ?st2]
  have "main_try ?W initial_state = (written no_floats (PyInt 5) ?st2, Inl (no_len ''int''))"
    by (simp add: main_try_stub)
  from main_handler [OF this] l t show ?thesis
    by (simp add: error_outcome_def)
qed

section \<open>The format of the output file\<close>

lemma unencodable_kept: "\<not> encodable c \<Longrightarrow> escape_char c = [c]"
  by (simp add: escape_char_def encodable_def)

lemma enc_encode_basestring_iff:
  "list_all encodable (encode_basestring s) = list_all encodable s"
proof
  assume "list_all encodable s"
  then show "list_all encodable (encode_basestring s)" by (rule enc_encode_basestring)
next
  assume a: "list_all encodable (encode_basestring s)"
  show "list_all encodable s"
  proof (rule ccontr)
    assume "\<not> list_all encodable s"
    then obtain c where c: "c \<in> set s" "\<not> encodable c"
      by (auto simp: list_all_iff)
    then have "c \<in> set (escape_char c)"
      using unencodable_kept [of c] by simp
    with c have "c \<in> set (concat (map escape_char s))"
      by auto
    with a c show False
      by (auto simp: encode_basestring_def list_all_iff)
  qed
qed

lemma enc_error_document_iff:
  "list_all encodable (keywords_document F (error_entry e)) = plain e"
  by (simp add: error_document enc_encode_basestring_iff plain_def enc_encode_basestring)

lemma write_keywords_Inr:
  assumes "write_keywords F kw st = (st', Inr u)"
  shows "st' = written F kw st \<and> list_all encodable (keywords_document F kw)"
proof (cases "list_all encodable (keywords_document F kw)")
  case True
  from write_keywords_ok [OF True, of st] assms have "st' = written F kw st"
    by (simp add: written_def)
  with True show ?thesis by simp
next
  case False
  from write_keywords_fail [OF False, of st] assms show ?thesis
    by auto
qed

lemma process_response_Inr:
  assumes "process_response F v st = (st', Inr u)"
  shows "\<exists>kw n. st' = py_print (success_line n) (written F kw st) \<and> truthy F kw"
  using assms
  by (auto simp: process_response_def Let_def success_line_def
        split: sum.splits prod.splits if_splits dest!: write_keywords_Inr)

lemma main_Inr_file:
  assumes "main W st = (st', Inr u)"
  shows "\<exists>kw. truthy (fops W) kw
           \<and> files st' (OUTPUT_FILENAME CONFIG) = Some (utf8_bytes (keywords_document (fops W) kw))"
proof -
  from main_Inr [OF assms] obtain st2 v where "process_response (fops W) v st2 = (st', Inr u)"
    by (auto simp: main_try_def Let_def split: prod.splits sum.splits)
  from process_response_Inr [OF this] show ?thesis
    by (auto simp: written_def py_print_def)
qed

lemma main_same_error:
  assumes "main_try W st = (st2, Inl e)" and "main W st = (st3, Inl e)"
  shows "st3 = error_outcome (fops W) e st2"
proof (cases "plain e")
  case True
  from main_handler [OF assms(1) True] assms(2) show ?thesis by simp
next
  case False
  then have "\<not> list_all encodable (keywords_document (fops W) (error_entry e))"
    by (simp add: enc_error_document_iff)
  from write_keywords_fail [OF this, of "py_print (error_banner @ exn_str e) st2"]
  obtain s obj i j where "write_keywords (fops W) (error_entry e) (py_print (error_banner @ exn_str e) st2)
      = (s, Inl (UnicodeEncodeError obj i j))"
    by blast
  with assms have "e = UnicodeEncodeError obj i j"
    by (simp add: main_def error_entry_def)
  with False show ?thesis by simp
qed

lemma string_list_text:
  "dumps_at F (PyList (map PyStr (x # xs))) 1
     = ascii ''['' @ [10] @ ascii ''    ''
         @ join (ascii '','' @ [10] @ ascii ''    '') (map encode_basestring (x # xs))
         @ [10] @ ascii ''  ]''"
  by (simp add: dumps_string_list items_text_def newline_indent_def ascii_def numeral_2_eq_2
        numeral_eq_Suc)

lemma write_keywords_completes:
  "(\<exists>st'. write_keywords F kw st = (st', Inr ())) = list_all encodable (keywords_document F kw)"
proof
  assume "\<exists>st'. write_keywords F kw st = (st', Inr ())"
  then show "list_all encodable (keywords_document F kw)"
    using write_keywords_Inr by blast
next
  assume "list_all encodable (keywords_document F kw)"
  from write_keywords_ok [OF this, of st] show "\<exists>st'. write_keywords F kw st = (st', Inr ())"
    by blast
qed

lemma enc_winter: "list_all encodable winter"
  by (simp add: winter_def encodable_def)

lemma newline_indent_levels:
  "newline_indent 0 = [10]"
  "newline_indent (Suc 0) = [10, 32, 32]"
  "newline_indent (Suc (Suc 0)) = [10, 32, 32, 32, 32]"
  by (simp_all add: newline_indent_def numeral_eq_Suc)

lemma surrogate_chunks:
  "iterencode no_floats (PyDict [(ascii ''keywords'', PyList [PyStr [0xD800]])]) 0
     = [[123], [10, 32, 32], quoted ''keywords'', ascii '': '', [91, 10, 32, 32, 32, 32, 34, 0xD800, 34],
        [10, 32, 32], [93], [10], [125]]"
  by (simp add: newline_indent_levels encode_basestring_def escape_char_def quoted_def ascii_def)

lemma surrogate_chunk_fails:
  "utf8_encode [91, 10, 32, 32, 32, 32, 34, 0xD800, 34]
     = Inl (UnicodeEncodeError [91, 10, 32, 32, 32, 32, 34, 0xD800, 34] 7 8)"
  by (simp add: utf8_encode_def encodable_def)

lemma document_head_bytes:
  "utf8_bytes document_head = [123, 10, 32, 32, 34, 107, 101, 121, 119, 111, 114, 100, 115, 34, 58, 32]"
  by (simp add: document_head_def utf8_bytes_def utf8_char_def ascii_def quoted_def)

lemma write_surrogate:
  "write_keywords no_floats (PyList [PyStr [0xD800]]) st
     = (st\<lparr>files := (files st)(OUTPUT_FILENAME CONFIG \<mapsto> utf8_bytes document_head)\<rparr>,
        Inl (UnicodeEncodeError [91, 10, 32, 32, 32, 32, 34, 0xD800, 34] 7 8))"
proof -
  have 1: "utf8_encode [123] = Inr [123]" "utf8_encode [10, 32, 32] = Inr [10, 32, 32]"
      "utf8_encode (quoted ''keywords'') = Inr [34, 107, 101, 121, 119, 111, 114, 100, 115, 34]"
      "utf8_encode (ascii '': '') = Inr [58, 32]"
    by (simp_all add: utf8_encode_ok utf8_bytes_def utf8_char_def quoted_def ascii_def)
  show ?thesis
    unfolding write_keywords_def surrogate_chunks
    by (simp add: 1 surrogate_chunk_fails document_head_bytes)
qed

lemma document_after_head:
  "keywords_document F kw = document_head @ dumps_at F kw 1 @ [10, 125]"
  by (simp add: document_text document_head_def ascii_def)

lemma head_is_not_document:
  "utf8_bytes document_head \<noteq> utf8_bytes (keywords_document F kw)"
  by (simp add: document_after_head utf8_bytes_append) (simp add: utf8_bytes_def utf8_char_def)

lemma head_does_not_parse:
  "json_loads F document_head = Inl (JSONDecodeError expecting_value document_head 16)"
  by (simp add: document_head_def eval_defs)

text \<open>
  C7 (as amended).  Every write of the result file that completes leaves, at the configured
  path \<open>keywords.json\<close> and whatever the file held before, the UTF-8 bytes of the document
  \<open>{"keywords": ...}\<close>, and leaves the other files alone; a write completes exactly when the
  document has no character that UTF-8 cannot encode (no surrogate code point).  This is so
  for the file a successful run leaves and for the file of a run that raises the error of its
  \<open>try\<close> block again.  The document is laid out with a two-space indentation (the members of
  the object after two spaces, the elements of the list after four), every character other
  than the quote, the backslash and the control characters stands for itself, unescaped, and
  the bytes are those that a strict UTF-8 decoder turns back into the text.
\<close>

theorem result_file_format:
  "(\<forall>st'. write_keywords F kw st = (st', Inr ()) \<longrightarrow>
       files st' (OUTPUT_FILENAME CONFIG) = Some (utf8_bytes (keywords_document F kw))
       \<and> (\<forall>path. path \<noteq> OUTPUT_FILENAME CONFIG \<longrightarrow> files st' path = files st path))
   \<and> (\<exists>st'. write_keywords F kw st = (st', Inr ())) = list_all encodable (keywords_document F kw)
   \<and> (\<forall>st1. main W st0 = (st1, Inr ()) \<longrightarrow>
         (\<exists>kws. files st1 (OUTPUT_FILENAME CONFIG) = Some (utf8_bytes (keywords_document (fops W) kws))))
   \<and> (\<forall>st2 st3 e. main_try W st0 = (st2, Inl e) \<and> main W st0 = (st3, Inl e) \<longrightarrow>
         files st3 (OUTPUT_FILENAME CONFIG) = Some (utf8_bytes (keywords_document (fops W) (error_entry e))))
   \<and> keywords_document F kw
        = ascii ''{'' @ [10] @ ascii ''  '' @ quoted ''keywords'' @ ascii '': '' @ dumps_at F kw 1
            @ [10] @ ascii ''}''
   \<and> dumps_at F (PyList (map PyStr (x # xs))) 1
        = ascii ''['' @ [10] @ ascii ''    ''
            @ join (ascii '','' @ [10] @ ascii ''    '') (map encode_basestring (x # xs))
            @ [10] @ ascii ''  ]''
   \<and> (\<forall>c. 32 \<le> c \<and> c \<noteq> 34 \<and> c \<noteq> 92 \<longrightarrow> escape_char c = [c])
   \<and> (\<forall>s. list_all encodable s \<longrightarrow> utf8_decode (utf8_bytes s) = Some s)
   \<and> OUTPUT_FILENAME CONFIG = ascii ''keywords.json''"
proof (intro conjI allI impI)
  fix st' assume "write_keywords F kw st = (st', Inr ())"
  from write_keywords_Inr [OF this]
  show "files st' (OUTPUT_FILENAME CONFIG) = Some (utf8_bytes (keywords_document F kw))"
    by (simp add: written_def)
next
  fix st' path assume "write_keywords F kw st = (st', Inr ())" and "path \<noteq> OUTPUT_FILENAME CONFIG"
  with write_keywords_Inr [of F kw st st' "()"]
  show "files st' path = files st path"
    by (simp add: written_def)
next
  show "(\<exists>st'. write_keywords F kw st = (st', Inr ())) = list_all encodable (keywords_document F kw)"
    by (rule write_keywords_completes)
next
  fix st1 assume "main W st0 = (st1, Inr ())"
  from main_Inr_file [OF this]
  show "\<exists>kws. files st1 (OUTPUT_FILENAME CONFIG) = Some (utf8_bytes (keywords_document (fops W) kws))"
    by blast
next
  fix st2 st3 e assume "main_try W st0 = (st2, Inl e) \<and> main W st0 = (st3, Inl e)"
  then have "st3 = error_outcome (fops W) e st2"
    using main_same_error by blast
  then show "files st3 (OUTPUT_FILENAME CONFIG) = Some (utf8_bytes (keywords_document (fops W) (error_entry e)))"
    by (simp add: error_outcome_def)
next
  show "keywords_document F kw
        = ascii ''{'' @ [10] @ ascii ''  '' @ quoted ''keywords'' @ ascii '': '' @ dumps_at F kw 1
            @ [10] @ ascii ''}''"
    by (rule document_text)
next
  show "dumps_at F (PyList (map PyStr (x # xs))) 1
        = ascii ''['' @ [10] @ ascii ''    ''
            @ join (ascii '','' @ [10] @ ascii ''    '') (map encode_basestring (x # xs))
            @ [10] @ ascii ''  ]''"
    by (rule string_list_text)
next
  fix c :: nat assume "32 \<le> c \<and> c \<noteq> 34 \<and> c \<noteq> 92"
  then show "escape_char c = [c]"
    by (simp add: escape_char_def)
next
  fix s assume "list_all encodable s"
  then show "utf8_decode (utf8_bytes s) = Some s"
    by (rule utf8_roundtrip)
next
  show "OUTPUT_FILENAME CONFIG = ascii ''keywords.json''"
    by (simp add: CONFIG_def)
qed

theorem result_file_format_witness:
  "files (fst (write_keywords no_floats (PyList [PyStr (ascii ''a''), PyStr (ascii ''b'')]) initial_state))
      (OUTPUT_FILENAME CONFIG)
     = Some (utf8_bytes (ascii ''{'' @ [10] @ ascii ''  '' @ quoted ''keywords'' @ ascii '': ['' @ [10]
               @ ascii ''    '' @ quoted ''a'' @ ascii '','' @ [10] @ ascii ''    '' @ quoted ''b''
               @ [10] @ ascii ''  ]'' @ [10] @ ascii ''}''))
   \<and> (\<exists>kws. files (fst (main (openai_stub 200 content_ab) initial_state)) (OUTPUT_FILENAME CONFIG)
               = Some (utf8_bytes (keywords_document no_floats kws)))
   \<and> files (fst (main (stub_world (\<lambda>name. None) 200 []) initial_state)) (OUTPUT_FILENAME CONFIG)
       = Some (utf8_bytes (keywords_document no_floats (error_entry ConfigurationError)))
   \<and> snd (write_keywords no_floats (PyList [PyStr winter]) initial_state) = Inr ()
   \<and> files (fst (write_keywords no_floats (PyList [PyStr winter]) initial_state)) (OUTPUT_FILENAME CONFIG)
       = Some ([123, 10, 32, 32, 34, 107, 101, 121, 119, 111, 114, 100, 115, 34, 58, 32, 91, 10,
                32, 32, 32, 32, 34, 0xEA, 0xB2, 0xA8, 0xEC, 0x9A, 0xB8, 34, 10, 32, 32, 93, 10, 125])
   \<and> utf8_decode (utf8_bytes winter) = Some winter"
proof -
  let ?kw = "PyList [PyStr (ascii ''a''), PyStr (ascii ''b'')] :: unit pyval"
  let ?W = "openai_stub 200 content_ab"
  let ?V = "stub_world (\<lambda>name. None) 200 []"
  note fmt = result_file_format [of no_floats ?kw initial_state ?W initial_state "ascii ''a''" "[ascii ''b'']"]
  have e: "list_all encodable (keywords_document no_floats ?kw)"
    by (simp add: enc_document dumps_at_def enc_encode_basestring)
  have w: "write_keywords no_floats ?kw initial_state
      = (fst (write_keywords no_floats ?kw initial_state), Inr ())"
    using write_keywords_ok [OF e, of initial_state] by (intro pair_snd) simp
  from fmt w have "files (fst (write_keywords no_floats ?kw initial_state)) (OUTPUT_FILENAME CONFIG)
      = Some (utf8_bytes (keywords_document no_floats ?kw))"
    by blast
  moreover from fmt have "keywords_document no_floats ?kw
      = ascii ''{'' @ [10] @ ascii ''  '' @ quoted ''keywords'' @ ascii '': ['' @ [10]
               @ ascii ''    '' @ quoted ''a'' @ ascii '','' @ [10] @ ascii ''    '' @ quoted ''b''
               @ [10] @ ascii ''  ]'' @ [10] @ ascii ''}''"
    by (simp add: encode_basestring_def escape_char_def quoted_def ascii_def)
  ultimately have a: "files (fst (write_keywords no_floats (PyList [PyStr (ascii ''a''), PyStr (ascii ''b'')]) initial_state))
      (OUTPUT_FILENAME CONFIG)
     = Some (utf8_bytes (ascii ''{'' @ [10] @ ascii ''  '' @ quoted ''keywords'' @ ascii '': ['' @ [10]
               @ ascii ''    '' @ quoted ''a'' @ ascii '','' @ [10] @ ascii ''    '' @ quoted ''b''
               @ [10] @ ascii ''  ]'' @ [10] @ ascii ''}''))"
    by simp
  have m: "main ?W initial_state = (fst (main ?W initial_state), Inr ())"
    by (rule pair_snd) (rule main_stub_ab)
  from fmt m have b: "\<exists>kws. files (fst (main ?W initial_state)) (OUTPUT_FILENAME CONFIG)
      = Some (utf8_bytes (keywords_document (fops ?W) kws))"
    by blast
  note fmt' = result_file_format [of no_floats ?kw initial_state ?V initial_state "ascii ''a''" "[ascii ''b'']"]
  have t: "main_try ?V initial_state = (py_print request_line initial_state, Inl ConfigurationError)"
    by (rule main_try_no_key)
  have h: "main ?V initial_state = (fst (main ?V initial_state), Inl ConfigurationError)"
    by (rule pair_snd) (simp add: main_handler [OF t])
  from fmt' t h have c: "files (fst (main ?V initial_state)) (OUTPUT_FILENAME CONFIG)
      = Some (utf8_bytes (keywords_document (fops ?V) (error_entry ConfigurationError)))"
    by blast
  have f: "fops ?V = no_floats"
    by (simp add: stub_world_def)
  let ?k = "PyList [PyStr winter] :: unit pyval"
  note fmt2 = result_file_format [of no_floats ?k initial_state ?W initial_state winter "[]"]
  have e2: "list_all encodable (keywords_document no_floats ?k)"
    by (simp add: enc_document dumps_at_def enc_encode_basestring enc_winter)
  from fmt2 e2 obtain st' where w2: "write_keywords no_floats ?k initial_state = (st', Inr ())"
    by blast
  from fmt2 w2 have f2: "files st' (OUTPUT_FILENAME CONFIG) = Some (utf8_bytes (keywords_document no_floats ?k))"
    by blast
  from fmt2 have "keywords_document no_floats ?k
      = ascii ''{'' @ [10] @ ascii ''  '' @ quoted ''keywords'' @ ascii '': ['' @ [10]
          @ ascii ''    '' @ [34] @ winter @ [34] @ [10] @ ascii ''  ]'' @ [10] @ ascii ''}''"
    by (simp add: encode_basestring_def escape_char_def quoted_def ascii_def winter_def)
  then have "utf8_bytes (keywords_document no_floats ?k)
      = [123, 10, 32, 32, 34, 107, 101, 121, 119, 111, 114, 100, 115, 34, 58, 32, 91, 10,
         32, 32, 32, 32, 34, 0xEA, 0xB2, 0xA8, 0xEC, 0x9A, 0xB8, 34, 10, 32, 32, 93, 10, 125]"
    by (simp add: utf8_bytes_def utf8_char_def ascii_def quoted_def winter_def)
  with f2 w2 have d: "snd (write_keywords no_floats ?k initial_state) = Inr ()"
      "files (fst (write_keywords no_floats ?k initial_state)) (OUTPUT_FILENAME CONFIG)
       = Some ([123, 10, 32, 32, 34, 107, 101, 121, 119, 111, 114, 100, 115, 34, 58, 32, 91, 10,
                32, 32, 32, 32, 34, 0xEA, 0xB2, 0xA8, 0xEC, 0x9A, 0xB8, 34, 10, 32, 32, 93, 10, 125])"
    by simp_all
  from fmt2 enc_winter have r: "utf8_decode (utf8_bytes winter) = Some winter"
    by blast
  from a b c d r show ?thesis
    by (simp only: f fops_stub)
qed

text \<open>
  C7 as stated fails for a write that does not complete.  A response whose one keyword is
  the JSON escape of U+D800 parses to a list with one keyword, a lone surrogate.  The list is
  truthy, so the file is opened and the document is written chunk by chunk; the chunk with
  the keyword cannot be encoded, \<open>UnicodeEncodeError\<close> is raised, and the file is left with
  the sixteen bytes written before it: not the document, and not JSON.
\<close>

theorem surrogate_keyword_truncates_file:
  "json_loads no_floats content_surrogate = Inr (PyDict [(ascii ''keywords'', PyList [PyStr [0xD800]])])
   \<and> truthy no_floats (PyList [PyStr [0xD800]])
   \<and> snd (write_keywords no_floats (PyList [PyStr [0xD800]]) initial_state)
       = Inl (UnicodeEncodeError [91, 10, 32, 32, 32, 32, 34, 0xD800, 34] 7 8)
   \<and> files (fst (write_keywords no_floats (PyList [PyStr [0xD800]]) initial_state)) (OUTPUT_FILENAME CONFIG)
       = Some (utf8_bytes document_head)
   \<and> snd (main_try (openai_stub 200 content_surrogate) initial_state)
       = Inl (UnicodeEncodeError [91, 10, 32, 32, 32, 32, 34, 0xD800, 34] 7 8)
   \<and> files (fst (main_try (openai_stub 200 content_surrogate) initial_state)) (OUTPUT_FILENAME CONFIG)
       = Some (utf8_bytes document_head)
   \<and> utf8_bytes document_head
       = [123, 10, 32, 32, 34, 107, 101, 121, 119, 111, 114, 100, 115, 34, 58, 32]
   \<and> utf8_bytes document_head \<noteq> utf8_bytes (keywords_document no_floats (PyList [PyStr [0xD800]]))
   \<and> json_load_file no_floats (fst (main_try (openai_stub 200 content_surrogate) initial_state)) = None"
proof -
  let ?W = "openai_stub 200 content_surrogate"
  let ?kw = "PyList [PyStr [0xD800]] :: unit pyval"
  let ?st2 = "fst (call_ai ?W (build_prompt (today ?W)) (py_print request_line initial_state))"
  let ?e = "UnicodeEncodeError [91, 10, 32, 32, 32, 32, 34, 0xD800, 34] 7 8"
  have s: "strip_fence (PyStr content_surrogate :: unit pyval) = Inr content_surrogate"
    by (simp add: strip_content_more)
  have l: "json_loads no_floats content_surrogate = Inr (PyDict [(ascii ''keywords'', ?kw)])"
    by (simp add: loads_contents_more)
  have g: "dict_get (PyDict [(ascii ''keywords'', ?kw)]) (ascii ''keywords'') (PyList []) = Inr ?kw"
    by (simp add: dict_get_def)
  have t: "truthy no_floats ?kw"
    by simp
  have c: "snd (call_ai ?W (build_prompt (today ?W)) (py_print request_line initial_state))
      = Inr (PyStr content_surrogate)"
    by (rule stub_call_of) (simp add: envelope_loads_more)
  have p: "process_response no_floats (PyStr content_surrogate) ?st2
      = (?st2\<lparr>files := (files ?st2)(OUTPUT_FILENAME CONFIG \<mapsto> utf8_bytes document_head)\<rparr>, Inl ?e)"
    using s l g t by (simp add: process_response_def write_surrogate)
  have m: "main_try ?W initial_state
      = (?st2\<lparr>files := (files ?st2)(OUTPUT_FILENAME CONFIG \<mapsto> utf8_bytes document_head)\<rparr>, Inl ?e)"
    unfolding main_try_stub_of [OF c] by (rule p)
  have d: "utf8_decode (utf8_bytes document_head) = Some document_head"
    by (rule utf8_roundtrip) (simp add: document_head_def quoted_def)
  have u: "universal_newlines document_head = document_head"
    by (rule universal_newlines_id) (simp add: document_head_def quoted_def ascii_def)
  have r: "json_load_file no_floats (fst (main_try ?W initial_state)) = None"
    by (simp add: m json_load_file_def d u head_does_not_parse)
  have w: "snd (write_keywords no_floats ?kw initial_state) = Inl ?e"
      "files (fst (write_keywords no_floats ?kw initial_state)) (OUTPUT_FILENAME CONFIG)
         = Some (utf8_bytes document_head)"
    by (simp_all add: write_surrogate)
  have m': "snd (main_try ?W initial_state) = Inl ?e"
      "files (fst (main_try ?W initial_state)) (OUTPUT_FILENAME CONFIG) = Some (utf8_bytes document_head)"
    by (simp_all add: m)
  from l t w m' document_head_bytes head_is_not_document [of no_floats ?kw] r show ?thesis
    by blast
qed

end
